(* ===== verification/Web_Prelude.thy ===== *)
theory Web_Prelude
  imports Main "HOL-Library.Word"
begin

text \<open>
  Shared vocabulary of the development: the C++ failures that the model makes explicit, the
  chaining of fallible operations, loops over a vector of jobs, and the generic facts on lists
  and on 64-bit words that the component theories use.

  \<^item> A fallible operation returns \<open>cpp_error + 'a\<close>: \<open>Inl\<close> is a thrown exception or an
    execution that the C++ standard leaves undefined, \<open>Inr\<close> a normal return.
  \<^item> \<open>bindE\<close> runs one operation after another and stops at the first failure.
  \<^item> \<open>foldE\<close> is the range-based \<open>for\<close> loop over a vector.
\<close>

type_synonym size_t = "64 word"

text \<open>The pointers of the program. Zero is the null pointer and is never allocated.\<close>

type_synonym chan_ptr = nat
type_synonym loop_ptr = nat
type_synonym conn_ptr = nat
type_synonym str_ptr = nat

datatype cpp_error =
    OutOfBounds         \<comment> \<open>an access outside the addressed array: undefined behaviour\<close>
  | UninitialisedRead   \<comment> \<open>a local variable is used before it has a value\<close>
  | UseAfterFree        \<comment> \<open>an access through a pointer to an object that is gone\<close>
  | NullDereference     \<comment> \<open>a member call through a null pointer\<close>
  | LengthError         \<comment> \<open>\<open>std::length_error\<close>\<close>
  | BadFunctionCall     \<comment> \<open>\<open>std::bad_function_call\<close>: an empty \<open>std::function\<close> is called\<close>
  | SignedOverflow      \<comment> \<open>an \<open>int\<close> leaves its range\<close>

named_theorems bind_simps \<open>equations that run a chain of fallible operations\<close>
named_theorems size_simps \<open>size_t arithmetic read as natural numbers\<close>
named_theorems frame_simps \<open>what an operation leaves alone\<close>

section \<open>Chaining fallible operations\<close>

definition bindE :: "cpp_error + 'a \<Rightarrow> ('a \<Rightarrow> cpp_error + 'b) \<Rightarrow> cpp_error + 'b" where
  "bindE r f = (case r of Inl e \<Rightarrow> Inl e | Inr x \<Rightarrow> f x)"

lemma bindE_Inl [simp, bind_simps]: "bindE (Inl e) f = Inl e"
  by (simp add: bindE_def)

lemma bindE_Inr [simp, bind_simps]: "bindE (Inr x) f = f x"
  by (simp add: bindE_def)

lemma bindE_eq_Inr [bind_simps]:
  "bindE r f = Inr y \<longleftrightarrow> (\<exists>x. r = Inr x \<and> f x = Inr y)"
  by (cases r) simp_all

lemma bindE_eq_Inl: "bindE r f = Inl e \<longleftrightarrow> r = Inl e \<or> (\<exists>x. r = Inr x \<and> f x = Inl e)"
  by (cases r) simp_all

lemma bindE_InrE:
  assumes "bindE r f = Inr y"
  obtains x where "r = Inr x" and "f x = Inr y"
  using assms by (cases r) simp_all

lemma bindE_assoc: "bindE (bindE r f) g = bindE r (\<lambda>x. bindE (f x) g)"
  by (cases r) simp_all

lemma bindE_cong [fundef_cong]:
  "r = r' \<Longrightarrow> (\<And>x. r' = Inr x \<Longrightarrow> f x = f' x) \<Longrightarrow> bindE r f = bindE r' f'"
  by (cases r') simp_all

text \<open>A dereference: the object a pointer names, or a failure when it is gone.\<close>

definition derefE :: "('p \<rightharpoonup> 'o) \<Rightarrow> 'p \<Rightarrow> cpp_error + 'o" where
  "derefE heap p = (case heap p of None \<Rightarrow> Inl UseAfterFree | Some obj \<Rightarrow> Inr obj)"

lemma derefE_Some [simp]: "heap p = Some obj \<Longrightarrow> derefE heap p = Inr obj"
  by (simp add: derefE_def)

lemma derefE_None [simp]: "heap p = None \<Longrightarrow> derefE heap p = Inl UseAfterFree"
  by (simp add: derefE_def)

lemma derefE_eq_Inr [bind_simps]: "derefE heap p = Inr obj \<longleftrightarrow> heap p = Some obj"
  by (simp add: derefE_def split: option.splits)

section \<open>Loops over a vector\<close>

fun foldE :: "('x \<Rightarrow> 's \<Rightarrow> cpp_error + 's) \<Rightarrow> 'x list \<Rightarrow> 's \<Rightarrow> cpp_error + 's" where
  "foldE f [] s = Inr s"
| "foldE f (x # xs) s = bindE (f x s) (foldE f xs)"

lemma foldE_append: "foldE f (xs @ ys) s = bindE (foldE f xs s) (foldE f ys)"
proof (induction xs arbitrary: s)
  case Nil
  then show ?case by simp
next
  case (Cons x xs)
  then have "foldE f (xs @ ys) = (\<lambda>t. bindE (foldE f xs t) (foldE f ys))" by blast
  then show ?case by (simp add: bindE_assoc)
qed

lemma foldE_invariant:
  assumes "foldE f xs s = Inr s'" and "P s"
    and "\<And>x t t'. x \<in> set xs \<Longrightarrow> P t \<Longrightarrow> f x t = Inr t' \<Longrightarrow> P t'"
  shows "P s'"
  using assms
proof (induction xs arbitrary: s)
  case Nil
  then show ?case by simp
next
  case (Cons x xs)
  then obtain t where "f x s = Inr t" and "foldE f xs t = Inr s'"
    by (auto simp: bind_simps)
  with Cons show ?case by (meson list.set_intros)
qed

section \<open>Blocks of bytes\<close>

text \<open>\<open>put_block i src dst\<close>: the cells of \<open>dst\<close> from index \<open>i\<close> on are overwritten with \<open>src\<close>.\<close>

definition put_block :: "nat \<Rightarrow> 'a list \<Rightarrow> 'a list \<Rightarrow> 'a list" where
  "put_block i src dst = take i dst @ src @ drop (i + length src) dst"

lemma length_put_block [simp]:
  "i + length src \<le> length dst \<Longrightarrow> length (put_block i src dst) = length dst"
  by (simp add: put_block_def)

lemma put_block_Nil [simp]: "put_block i [] dst = dst"
  by (simp add: put_block_def)

lemma take_put_block:
  "j \<le> i \<Longrightarrow> i \<le> length dst \<Longrightarrow> take j (put_block i src dst) = take j dst"
  by (simp add: put_block_def min_def)

lemma take_put_block_end:
  assumes "i + length src \<le> length dst"
  shows "take (i + length src) (put_block i src dst) = take i dst @ src"
  using assms by (simp add: put_block_def)

text \<open>\<open>std::copy\<close> inside one array is a forward loop over the cells.\<close>

fun copy_forward :: "nat \<Rightarrow> nat \<Rightarrow> nat \<Rightarrow> 'a list \<Rightarrow> 'a list" where
  "copy_forward 0 first dest xs = xs"
| "copy_forward (Suc n) first dest xs =
     copy_forward n (Suc first) (Suc dest) (xs[dest := xs ! first])"

lemma length_copy_forward [simp]: "length (copy_forward n first dest xs) = length xs"
  by (induction n first dest xs rule: copy_forward.induct) simp_all

text \<open>
  With a destination that starts before the source, the forward loop never reads a cell it has
  overwritten, so it moves the block as it was.
\<close>

lemma copy_forward_eq_put_block:
  assumes "dest < first" and "first + n \<le> length xs"
  shows "copy_forward n first dest xs = put_block dest (take n (drop first xs)) xs"
  using assms
proof (induction n arbitrary: first dest xs)
  case 0
  then show ?case by simp
next
  case (Suc n)
  let ?ys = "xs[dest := xs ! first]"
  have "copy_forward (Suc n) first dest xs
      = put_block (Suc dest) (take n (drop (Suc first) ?ys)) ?ys"
    using Suc by simp
  also have "drop (Suc first) ?ys = drop (Suc first) xs"
    using Suc.prems by simp
  also have "put_block (Suc dest) (take n (drop (Suc first) xs)) ?ys
      = take (Suc dest) ?ys @ take n (drop (Suc first) xs) @ drop (Suc dest + n) xs"
    using Suc.prems by (simp add: put_block_def)
  also have "take (Suc dest) ?ys = take dest xs @ [xs ! first]"
    using Suc.prems by (simp add: take_Suc_conv_app_nth)
  also have "(take dest xs @ [xs ! first]) @ take n (drop (Suc first) xs) @ drop (Suc dest + n) xs
      = put_block dest (take (Suc n) (drop first xs)) xs"
    using Suc.prems by (simp add: put_block_def Cons_nth_drop_Suc [symmetric])
  finally show ?case .
qed

section \<open>Sizes\<close>

lemma unat_sub_le [size_simps]:
  fixes a b :: "'l::len word"
  assumes "unat b \<le> unat a"
  shows "unat (a - b) = unat a - unat b"
  using assms by (simp add: unat_sub word_le_nat_alt)

lemma unat_add_small [size_simps]:
  fixes a b :: size_t
  assumes "unat a + unat b < 18446744073709551616"
  shows "unat (a + b) = unat a + unat b"
  using assms by (simp add: unat_word_ariths)

lemma unat_of_nat_small [size_simps]:
  assumes "n < 18446744073709551616"
  shows "unat (of_nat n :: size_t) = n"
  using assms by (simp add: unat_of_nat take_bit_nat_eq_self)

lemma word_bits_eq_iff:
  fixes x y :: "'l::len word"
  shows "x = y \<longleftrightarrow> (\<forall>n < LENGTH('l). bit x n = bit y n)"
  by (auto intro: bit_word_eqI)

end
