(* ===== verification/Text_Format.thy ===== *)
theory Text_Format
  imports Web_Prelude
begin

text \<open>
  The conversions of \<open>printf\<close> that the program uses (\<open>%d\<close>, \<open>%u\<close>, \<open>%4d\<close>, \<open>%02d\<close>) and
  the truncation of \<open>snprintf\<close>, as functions on strings. The lemmas say that decimal text
  determines its number, how long it is, and that it holds digits only; names and addresses
  are compared through them.
\<close>

definition digit :: "nat \<Rightarrow> char" where
  "digit d = char_of (48 + d)"

fun dec :: "nat \<Rightarrow> string" where
  "dec n = (if n < 10 then [digit n] else dec (n div 10) @ [digit (n mod 10)])"

declare dec.simps [simp del]

definition dec_int :: "int \<Rightarrow> string" where
  "dec_int i = (if i < 0 then CHR ''-'' # dec (nat (- i)) else dec (nat i))"

definition pad_left :: "nat \<Rightarrow> char \<Rightarrow> string \<Rightarrow> string" where
  "pad_left w c s = replicate (w - length s) c @ s"

text \<open>\<open>%4d\<close> pads with blanks on the left; \<open>%02d\<close> with zeros after the sign.\<close>

definition fmt_d4 :: "int \<Rightarrow> string" where
  "fmt_d4 i = pad_left 4 (CHR '' '') (dec_int i)"

definition fmt_02d :: "int \<Rightarrow> string" where
  "fmt_02d i =
     (if i < 0 then CHR ''-'' # pad_left 1 (CHR ''0'') (dec (nat (- i)))
      else pad_left 2 (CHR ''0'') (dec (nat i)))"

text \<open>\<open>snprintf\<close> into a buffer of \<open>cells\<close> bytes keeps room for the terminating zero.\<close>

definition snprintf :: "nat \<Rightarrow> string \<Rightarrow> string" where
  "snprintf cells text = take (cells - 1) text"

lemma snprintf_fits [simp]: "length text < cells \<Longrightarrow> snprintf cells text = text"
  by (simp add: snprintf_def)

lemma length_snprintf: "0 < cells \<Longrightarrow> length (snprintf cells text) < cells"
  by (simp add: snprintf_def min_def) arith

section \<open>Reading decimal text back\<close>

definition undigit :: "char \<Rightarrow> nat" where
  "undigit c = of_char c - 48"

definition undec :: "string \<Rightarrow> nat" where
  "undec s = foldl (\<lambda>acc c. 10 * acc + undigit c) 0 s"

lemma undigit_digit [simp]: "d < 10 \<Longrightarrow> undigit (digit d) = d"
  by (simp add: undigit_def digit_def)

lemma undec_snoc: "undec (s @ [c]) = 10 * undec s + undigit c"
  by (simp add: undec_def)

lemma undec_dec [simp]: "undec (dec n) = n"
proof (induction n rule: dec.induct)
  case (1 n)
  show ?case
  proof (cases "n < 10")
    case True
    then show ?thesis by (simp add: dec.simps [of n] undec_def)
  next
    case False
    with 1 show ?thesis by (simp add: dec.simps [of n] undec_snoc)
  qed
qed

lemma dec_inject [simp]: "dec m = dec n \<longleftrightarrow> m = n"
  by (metis undec_dec)

lemma dec_nonempty [simp]: "dec n \<noteq> []"
  by (subst dec.simps) simp

definition decimal_digit :: "char \<Rightarrow> bool" where
  "decimal_digit c \<longleftrightarrow> 48 \<le> (of_char c :: nat) \<and> (of_char c :: nat) \<le> 57"

lemma decimal_digit_digit [simp]: "d < 10 \<Longrightarrow> decimal_digit (digit d)"
  by (simp add: decimal_digit_def digit_def)

lemma set_dec: "c \<in> set (dec n) \<Longrightarrow> decimal_digit c"
proof (induction n rule: dec.induct)
  case (1 n)
  then show ?case by (cases "n < 10") (auto simp: dec.simps [of n])
qed

lemma length_dec_le: "n < 10 ^ k \<Longrightarrow> 0 < k \<Longrightarrow> length (dec n) \<le> k"
proof (induction k arbitrary: n)
  case 0
  then show ?case by simp
next
  case (Suc k)
  show ?case
  proof (cases "n < 10")
    case True
    then show ?thesis by (simp add: dec.simps [of n])
  next
    case False
    with Suc.prems have "0 < k" by (cases k) auto
    moreover from Suc.prems have "n div 10 < 10 ^ k" by (simp add: less_mult_imp_div_less)
    ultimately have "length (dec (n div 10)) \<le> k" using Suc.IH by blast
    with False show ?thesis by (simp add: dec.simps [of n])
  qed
qed

lemma length_dec_1 [simp]: "n < 10 \<Longrightarrow> length (dec n) = 1"
  by (simp add: dec.simps [of n])

lemma length_dec_gt: "10 ^ k \<le> n \<Longrightarrow> k < length (dec n)"
proof (induction k arbitrary: n)
  case 0
  then show ?case by simp
next
  case (Suc k)
  then have "10 ^ k \<le> n div 10" by (simp add: less_eq_div_iff_mult_less_eq mult.commute)
  then have "k < length (dec (n div 10))" by (rule Suc.IH)
  moreover have "\<not> n < 10"
    using Suc.prems by (metis leD le_trans linorder_not_less one_le_numeral power_Suc
        mult.right_neutral mult_le_mono2 one_le_power)
  ultimately show ?case by (simp add: dec.simps [of n])
qed

lemma length_dec_4: "1000 \<le> n \<Longrightarrow> n < 10000 \<Longrightarrow> length (dec n) = 4"
  using length_dec_gt [of 3 n] length_dec_le [of n 4] by simp

lemma length_pad_left [simp]: "length (pad_left w c s) = max w (length s)"
  by (simp add: pad_left_def)

text \<open>A zero-padded number is still read back, because leading zeros do not count.\<close>

lemma undec_zeros: "undec (replicate k (CHR ''0'') @ s) = undec s"
  by (induction k) (simp_all add: undec_def undigit_def)

lemma undec_fmt_02d: "0 \<le> i \<Longrightarrow> undec (fmt_02d i) = nat i"
  by (simp add: fmt_02d_def pad_left_def undec_zeros)

lemma length_fmt_02d: "0 \<le> i \<Longrightarrow> i < 100 \<Longrightarrow> length (fmt_02d i) = 2"
  using length_dec_le [of "nat i" 2] by (simp add: fmt_02d_def)

text \<open>Text up to a separator determines both sides when one side never holds it.\<close>

lemma append_separator_inject:
  assumes "xs @ c # ys = xs' @ c # ys'" and "c \<notin> set ys" and "c \<notin> set ys'"
  shows "xs = xs' \<and> ys = ys'"
proof -
  have "rev ys @ c # rev xs = rev ys' @ c # rev xs'"
    using arg_cong [OF assms(1), of rev] by simp
  then have "takeWhile (\<lambda>d. d \<noteq> c) (rev ys @ c # rev xs) = takeWhile (\<lambda>d. d \<noteq> c) (rev ys' @ c # rev xs')"
    by simp
  moreover have "takeWhile (\<lambda>d. d \<noteq> c) (rev zs @ c # us) = rev zs" if "c \<notin> set zs" for zs us
    using that by (subst takeWhile_append2) auto
  ultimately have "rev ys = rev ys'" using assms(2,3) by simp
  with assms(1) show ?thesis by simp
qed

end
