(* ===== verification/Time_Stamp.thy ===== *)
theory Time_Stamp
  imports Text_Format
begin

text \<open>
  ZTimeStamp/timestamp.cpp: the time stamp object and its text. \<open>time\<close> and \<open>localtime\<close> are
  calls into the C library whose results come from outside, so their results are parameters.
\<close>

text \<open>\<open>struct tm\<close>, the fields that are printed.\<close>

record tm =
  tm_year :: int
  tm_mon :: int
  tm_mday :: int
  tm_hour :: int
  tm_min :: int
  tm_sec :: int

record timestamp =
  ts_microSecondsSinceEpoch :: int

definition TimeStamp_default :: timestamp where
  "TimeStamp_default = \<lparr>ts_microSecondsSinceEpoch = 0\<rparr>"

definition TimeStamp_of :: "int \<Rightarrow> timestamp" where
  "TimeStamp_of microSecondsSinceEpoch = \<lparr>ts_microSecondsSinceEpoch = microSecondsSinceEpoch\<rparr>"

text \<open>\<open>now\<close> stores what \<open>time(NULL)\<close> returned, here the argument.\<close>

definition TimeStamp_now :: "int \<Rightarrow> timestamp" where
  "TimeStamp_now time_null = TimeStamp_of time_null"

definition ToString :: "(int \<Rightarrow> tm) \<Rightarrow> timestamp \<Rightarrow> string" where
  "ToString localtime ts =
     (let tm_time = localtime (ts_microSecondsSinceEpoch ts) in
      snprintf 128
        (fmt_d4 (tm_year tm_time + 1900) @ ''/'' @ fmt_02d (tm_mon tm_time + 1) @ ''/''
         @ fmt_02d (tm_mday tm_time) @ '' '' @ fmt_02d (tm_hour tm_time) @ '':''
         @ fmt_02d (tm_min tm_time) @ '':'' @ fmt_02d (tm_sec tm_time)))"

text \<open>The ranges of a broken-down time, for years of four digits.\<close>

definition tm_in_range :: "tm \<Rightarrow> bool" where
  "tm_in_range t \<longleftrightarrow>
     -900 \<le> tm_year t \<and> tm_year t < 8100 \<and> 0 \<le> tm_mon t \<and> tm_mon t < 12 \<and>
     1 \<le> tm_mday t \<and> tm_mday t \<le> 31 \<and> 0 \<le> tm_hour t \<and> tm_hour t < 24 \<and>
     0 \<le> tm_min t \<and> tm_min t < 60 \<and> 0 \<le> tm_sec t \<and> tm_sec t \<le> 60"

lemma fmt_d4_four_digits:
  assumes "1000 \<le> i" and "i < 10000"
  shows "fmt_d4 i = dec (nat i)" and "length (fmt_d4 i) = 4"
  using assms length_dec_4 [of "nat i"]
  by (simp_all add: fmt_d4_def dec_int_def pad_left_def)

text \<open>Within the ranges nothing is truncated and every field has its fixed width.\<close>

lemma ToString_in_range:
  assumes "tm_in_range (localtime (ts_microSecondsSinceEpoch ts))"
    and t: "t = localtime (ts_microSecondsSinceEpoch ts)"
  shows "ToString localtime ts =
      dec (nat (tm_year t + 1900)) @ ''/'' @ fmt_02d (tm_mon t + 1) @ ''/'' @ fmt_02d (tm_mday t)
      @ '' '' @ fmt_02d (tm_hour t) @ '':'' @ fmt_02d (tm_min t) @ '':'' @ fmt_02d (tm_sec t)"
    and "length (ToString localtime ts) = 19"
proof -
  have r: "tm_in_range t" using assms by simp
  then have y: "length (dec (nat (tm_year t + 1900))) = 4"
    by (intro length_dec_4) (auto simp: tm_in_range_def le_nat_iff nat_less_iff)
  have w: "length (fmt_02d (tm_mon t + 1)) = 2" "length (fmt_02d (tm_mday t)) = 2"
    "length (fmt_02d (tm_hour t)) = 2" "length (fmt_02d (tm_min t)) = 2"
    "length (fmt_02d (tm_sec t)) = 2" "fmt_d4 (tm_year t + 1900) = dec (nat (tm_year t + 1900))"
    using r by (simp_all add: tm_in_range_def length_fmt_02d fmt_d4_four_digits(1))
  show "ToString localtime ts =
      dec (nat (tm_year t + 1900)) @ ''/'' @ fmt_02d (tm_mon t + 1) @ ''/'' @ fmt_02d (tm_mday t)
      @ '' '' @ fmt_02d (tm_hour t) @ '':'' @ fmt_02d (tm_min t) @ '':'' @ fmt_02d (tm_sec t)"
    using w y by (simp add: ToString_def Let_def t [symmetric])
  then show "length (ToString localtime ts) = 19" using w y by simp
qed

end
