(* ===== verification/Logger.thy ===== *)
theory Logger
  imports Time_Stamp
begin

text \<open>
  include/logger.hpp and ZLog/logger.cpp: the levels, the line a message becomes, and the
  truncation the \<open>LOG_*\<close> macros apply. A macro sets the level of the one logger and then logs;
  \<open>LOG_FATAL\<close> does nothing more than that, so control goes on after it.
\<close>

datatype LogLevel = INFO | ERROR | FATAL | DEBUG

fun level_code :: "LogLevel \<Rightarrow> int" where
  "level_code INFO = 0"
| "level_code ERROR = 1"
| "level_code FATAL = 2"
| "level_code DEBUG = 3"

text \<open>The \<open>switch\<close> of \<open>Logger::log\<close>; its level is an \<open>int\<close>, and any other value has no prefix.\<close>

definition level_prefix :: "int \<Rightarrow> string" where
  "level_prefix level =
     (if level = level_code INFO then ''[INFO]''
      else if level = level_code ERROR then ''[ERROR]''
      else if level = level_code FATAL then ''[FATAL]''
      else if level = level_code DEBUG then ''[DEBUG]''
      else [])"

record logger =
  lg_logLevel :: int

definition setLogLevel :: "int \<Rightarrow> logger \<Rightarrow> logger" where
  "setLogLevel level l = l\<lparr>lg_logLevel := level\<rparr>"

text \<open>The line \<open>log\<close> prints, without the newline of its \<open>fprintf\<close>.\<close>

definition log_line :: "(int \<Rightarrow> tm) \<Rightarrow> timestamp \<Rightarrow> string \<Rightarrow> logger \<Rightarrow> string" where
  "log_line localtime now msg l =
     level_prefix (lg_logLevel l) @ ToString localtime now @ '' : '' @ msg"

definition log_macro ::
    "LogLevel \<Rightarrow> (int \<Rightarrow> tm) \<Rightarrow> timestamp \<Rightarrow> string \<Rightarrow> logger \<Rightarrow> logger \<times> string" where
  "log_macro level localtime now formatted l =
     (let l' = setLogLevel (level_code level) l in (l', log_line localtime now (snprintf 1024 formatted) l'))"

end
