(* ===== verification/System_Interface.thy ===== *)
theory System_Interface
  imports Logger
begin

text \<open>
  What the program exchanges with the operating system. The system is a parameter: a record
  \<open>os\<close> of functions that answer each call, given the events so far, so that a statement for
  every \<open>os\<close> is a statement for every behaviour of kernel and network. The answers are typed by
  the documented contract of the calls: \<open>write\<close> accepts at most the bytes it is given,
  \<open>read\<close>/\<open>readv\<close> deliver at most the bytes asked for, \<open>epoll_wait\<close> reports at most as many
  events as the array holds. A failing call returns -1 and sets \<open>errno\<close>.

  The state holds what the program did (\<open>io_trace\<close>, with the outcome of each call), \<open>errno\<close>,
  the \<open>LOG_ERROR\<close> and \<open>LOG_FATAL\<close> messages, and the thread that is running. \<open>LOG_INFO\<close>
  messages are not recorded: they carry addresses and times only.
\<close>

text \<open>\<open>struct sockaddr_in\<close>; port and address are in network byte order.\<close>

record sockaddr_in =
  sin_family :: int
  sin_port :: "16 word"
  sin_addr :: "32 word"

datatype ctl_op = CTL_ADD | CTL_MOD | CTL_DEL

datatype sock_opt = TCP_NODELAY | SO_REUSEADDR | SO_REUSEPORT | SO_KEEPALIVE

text \<open>Calls that only succeed or fail, and calls that return a new descriptor.\<close>

datatype io_call =
    CloseFd int
  | ShutdownWr int
  | BindSock int sockaddr_in
  | ListenSock int int
  | SetSockOpt int sock_opt int
  | EpollCtl int ctl_op int "32 word" chan_ptr

datatype fd_call = EpollCreate | EventFd | StreamSocket | Accept4 int

datatype io_event =
    Wrote int "char list"      \<comment> \<open>the kernel took exactly these bytes\<close>
  | WriteFailed int int
  | Received int "char list"   \<comment> \<open>the kernel delivered exactly these bytes\<close>
  | ReadFailed int int
  | Did io_call "int option"   \<comment> \<open>\<open>None\<close>: success, \<open>Some\<close> the error number\<close>
  | Opened fd_call int
  | OpenFailed fd_call int
  | Spawned int

record os =
  os_write :: "io_event list \<Rightarrow> int \<Rightarrow> char list \<Rightarrow> int + nat"
  os_read :: "io_event list \<Rightarrow> int \<Rightarrow> nat \<Rightarrow> int + char list"
  os_call :: "io_event list \<Rightarrow> io_call \<Rightarrow> int option"
  os_open :: "io_event list \<Rightarrow> fd_call \<Rightarrow> int + nat"
  os_wait :: "io_event list \<Rightarrow> int \<Rightarrow> nat \<Rightarrow> int + (chan_ptr \<times> 32 word) list"
  os_peer :: "io_event list \<Rightarrow> int \<Rightarrow> sockaddr_in"
  os_sockname :: "io_event list \<Rightarrow> int \<Rightarrow> int + sockaddr_in"
  os_sockerror :: "io_event list \<Rightarrow> int \<Rightarrow> int + int"   \<comment> \<open>\<open>getsockopt\<close> of \<open>SO_ERROR\<close>\<close>
  os_time :: "io_event list \<Rightarrow> int"
  os_spawn :: "io_event list \<Rightarrow> int"   \<comment> \<open>the id of a new thread\<close>

record io_state =
  io_trace :: "io_event list"
  io_errno :: int
  io_log :: "(LogLevel \<times> string) list"
  io_tid :: int

definition EAGAIN :: int where "EAGAIN = 11"
definition EINTR :: int where "EINTR = 4"
definition EMFILE :: int where "EMFILE = 24"
definition EPIPE :: int where "EPIPE = 32"
definition ECONNRESET :: int where "ECONNRESET = 104"

text \<open>On Linux \<open>EWOULDBLOCK\<close> is the same number as \<open>EAGAIN\<close>.\<close>

definition EWOULDBLOCK :: int where "EWOULDBLOCK = EAGAIN"

definition note_log :: "LogLevel \<Rightarrow> string \<Rightarrow> 'a io_state_scheme \<Rightarrow> 'a io_state_scheme" where
  "note_log level msg w = w\<lparr>io_log := io_log w @ [(level, msg)]\<rparr>"

definition note_event :: "io_event \<Rightarrow> 'a io_state_scheme \<Rightarrow> 'a io_state_scheme" where
  "note_event e w = w\<lparr>io_trace := io_trace w @ [e]\<rparr>"

section \<open>Calls\<close>

text \<open>\<open>write\<close>: the number of bytes the kernel took, or -1.\<close>

definition sys_write ::
    "os \<Rightarrow> int \<Rightarrow> char list \<Rightarrow> 'a io_state_scheme \<Rightarrow> int \<times> 'a io_state_scheme" where
  "sys_write os f bytes w =
     (case os_write os (io_trace w) f bytes of
        Inl e \<Rightarrow> (-1, note_event (WriteFailed f e) (w\<lparr>io_errno := e\<rparr>))
      | Inr n \<Rightarrow> (int (min n (length bytes)), note_event (Wrote f (take n bytes)) w))"

text \<open>\<open>read\<close> and \<open>readv\<close> with \<open>room\<close> bytes of room: the count and the bytes, or -1.\<close>

definition sys_read ::
    "os \<Rightarrow> int \<Rightarrow> nat \<Rightarrow> 'a io_state_scheme \<Rightarrow> int \<times> char list \<times> 'a io_state_scheme" where
  "sys_read os f room w =
     (case os_read os (io_trace w) f room of
        Inl e \<Rightarrow> (-1, [], note_event (ReadFailed f e) (w\<lparr>io_errno := e\<rparr>))
      | Inr bytes \<Rightarrow>
          (let got = take room bytes in (int (length got), got, note_event (Received f got) w)))"

text \<open>A call that only succeeds or fails: 0 or -1.\<close>

definition sys_call :: "os \<Rightarrow> io_call \<Rightarrow> 'a io_state_scheme \<Rightarrow> int \<times> 'a io_state_scheme" where
  "sys_call os c w =
     (case os_call os (io_trace w) c of
        None \<Rightarrow> (0, note_event (Did c None) w)
      | Some e \<Rightarrow> (-1, note_event (Did c (Some e)) (w\<lparr>io_errno := e\<rparr>)))"

text \<open>A call that returns a new descriptor, or -1.\<close>

definition sys_open :: "os \<Rightarrow> fd_call \<Rightarrow> 'a io_state_scheme \<Rightarrow> int \<times> 'a io_state_scheme" where
  "sys_open os c w =
     (case os_open os (io_trace w) c of
        Inl e \<Rightarrow> (-1, note_event (OpenFailed c e) (w\<lparr>io_errno := e\<rparr>))
      | Inr f \<Rightarrow> (int f, note_event (Opened c (int f)) w))"

text \<open>\<open>epoll_wait\<close> with room for \<open>maxevents\<close>: the count and the events, or -1.\<close>

definition sys_wait ::
    "os \<Rightarrow> int \<Rightarrow> nat \<Rightarrow> 'a io_state_scheme \<Rightarrow>
     int \<times> (chan_ptr \<times> 32 word) list \<times> 'a io_state_scheme" where
  "sys_wait os f maxevents w =
     (case os_wait os (io_trace w) f maxevents of
        Inl e \<Rightarrow> (-1, [], w\<lparr>io_errno := e\<rparr>)
      | Inr evs \<Rightarrow> (let got = take maxevents evs in (int (length got), got, w)))"

text \<open>A new thread, with its id.\<close>

definition sys_spawn :: "os \<Rightarrow> 'a io_state_scheme \<Rightarrow> int \<times> 'a io_state_scheme" where
  "sys_spawn os w = (let t = os_spawn os (io_trace w) in (t, note_event (Spawned t) w))"

section \<open>Reading the trace\<close>

text \<open>The byte streams of a descriptor: what the kernel took from it, what it delivered.\<close>

fun sent_bytes :: "int \<Rightarrow> io_event list \<Rightarrow> char list" where
  "sent_bytes f [] = []"
| "sent_bytes f (Wrote g bytes # es) = (if g = f then bytes else []) @ sent_bytes f es"
| "sent_bytes f (_ # es) = sent_bytes f es"

fun received_bytes :: "int \<Rightarrow> io_event list \<Rightarrow> char list" where
  "received_bytes f [] = []"
| "received_bytes f (Received g bytes # es) = (if g = f then bytes else []) @ received_bytes f es"
| "received_bytes f (_ # es) = received_bytes f es"

lemma sent_bytes_append [simp]: "sent_bytes f (xs @ ys) = sent_bytes f xs @ sent_bytes f ys"
  by (induction f xs rule: sent_bytes.induct) simp_all

lemma received_bytes_append [simp]:
  "received_bytes f (xs @ ys) = received_bytes f xs @ received_bytes f ys"
  by (induction f xs rule: received_bytes.induct) simp_all

section \<open>What the calls do to the state\<close>

lemma note_simps [simp]:
  "io_trace (note_event e w) = io_trace w @ [e]"
  "io_errno (note_event e w) = io_errno w"
  "io_log (note_event e w) = io_log w"
  "io_tid (note_event e w) = io_tid w"
  "io_trace (note_log l m w) = io_trace w"
  "io_errno (note_log l m w) = io_errno w"
  "io_log (note_log l m w) = io_log w @ [(l, m)]"
  "io_tid (note_log l m w) = io_tid w"
  by (simp_all add: note_event_def note_log_def)

lemma note_more [simp]:
  "io_state.more (note_event e w) = io_state.more w"
  "io_state.more (note_log l m w) = io_state.more w"
  by (simp_all add: note_event_def note_log_def)

lemma sys_write_cases:
  obtains (fail) e where
      "sys_write os f bytes w = (-1, note_event (WriteFailed f e) (w\<lparr>io_errno := e\<rparr>))"
  | (ok) n where "n \<le> length bytes"
      "sys_write os f bytes w = (int n, note_event (Wrote f (take n bytes)) w)"
proof (cases "os_write os (io_trace w) f bytes")
  case (Inl e)
  then show ?thesis by (intro fail [of e]) (simp add: sys_write_def)
next
  case (Inr n)
  then show ?thesis
    by (intro ok [of "min n (length bytes)"]) (simp_all add: sys_write_def min_def)
qed

lemma sys_read_cases:
  obtains (fail) e where
      "sys_read os f room w = (-1, [], note_event (ReadFailed f e) (w\<lparr>io_errno := e\<rparr>))"
  | (ok) bytes where "length bytes \<le> room"
      "sys_read os f room w = (int (length bytes), bytes, note_event (Received f bytes) w)"
proof (cases "os_read os (io_trace w) f room")
  case (Inl e)
  then show ?thesis by (intro fail [of e]) (simp add: sys_read_def)
next
  case (Inr bytes)
  then show ?thesis by (intro ok [of "take room bytes"]) (simp_all add: sys_read_def Let_def)
qed

lemma sys_call_cases:
  obtains (fail) e where "sys_call os c w = (-1, note_event (Did c (Some e)) (w\<lparr>io_errno := e\<rparr>))"
  | (ok) "sys_call os c w = (0, note_event (Did c None) w)"
  by (cases "os_call os (io_trace w) c") (auto simp: sys_call_def)

lemma sys_open_cases:
  obtains (fail) e where
      "sys_open os c w = (-1, note_event (OpenFailed c e) (w\<lparr>io_errno := e\<rparr>))"
  | (ok) f where "sys_open os c w = (int f, note_event (Opened c (int f)) w)"
  by (cases "os_open os (io_trace w) c") (auto simp: sys_open_def)

section \<open>An instance of the parameter\<close>

text \<open>
  A system for the concrete instances of the theorems: each \<open>read\<close> delivers \<open>incoming\<close>, each
  \<open>write\<close> takes up to \<open>accept\<close> bytes, other calls succeed, a new descriptor is larger than all before it.
\<close>

fun next_fd :: "io_event list \<Rightarrow> nat" where
  "next_fd [] = 3"
| "next_fd (Opened k f # es) = max (nat f + 1) (next_fd es)"
| "next_fd (_ # es) = next_fd es"

definition lab_os :: "char list \<Rightarrow> nat \<Rightarrow> os" where
  "lab_os incoming accept = \<lparr>
     os_write = (\<lambda>h f bytes. Inr accept),
     os_read = (\<lambda>h f room. Inr incoming),
     os_call = (\<lambda>h c. None),
     os_open = (\<lambda>h c. Inr (next_fd h)),
     os_wait = (\<lambda>h f maxevents. Inr []),
     os_peer = (\<lambda>h f. \<lparr>sin_family = 2, sin_port = 0, sin_addr = 0\<rparr>),
     os_sockname = (\<lambda>h f. Inr \<lparr>sin_family = 2, sin_port = 0, sin_addr = 0\<rparr>),
     os_sockerror = (\<lambda>h f. Inr 0),
     os_time = (\<lambda>h. 0),
     os_spawn = (\<lambda>h. 100 + int (length h))\<rparr>"

definition lab_io :: io_state where
  "lab_io = \<lparr>io_trace = [], io_errno = 0, io_log = [], io_tid = 1\<rparr>"

end
