(* ===== verification/Byte_Queue.thy ===== *)
theory Byte_Queue
  imports Web_Prelude
begin

text \<open>
  What the rest of the program relies on when it holds a byte buffer: a queue of bytes. The
  locale states the contract of a bounded queue over its abstraction (\<open>contents\<close>), its invariant
  and the storage it occupies (\<open>cap\<close>). Inside it, any sequence of pushes and pops is shown to
  deliver what a plain list of bytes delivers, and never to fail while the storage suffices.
\<close>

datatype queue_op = Push "char list" | Pop size_t

text \<open>The specification: a list of bytes. A pop of more bytes than there are is not allowed.\<close>

fun spec_queue :: "queue_op list \<Rightarrow> char list \<Rightarrow> (char list \<times> char list) option" where
  "spec_queue [] q = Some ([], q)"
| "spec_queue (Push d # ops) q = spec_queue ops (q @ d)"
| "spec_queue (Pop n # ops) q =
     (if unat n \<le> length q then
        map_option (\<lambda>(out, q'). (take (unat n) q @ out, q')) (spec_queue ops (drop (unat n) q))
      else None)"

fun pushed :: "queue_op list \<Rightarrow> char list" where
  "pushed [] = []"
| "pushed (Push d # ops) = d @ pushed ops"
| "pushed (Pop n # ops) = pushed ops"

text \<open>The same operations on an implementation.\<close>

fun run_queue ::
    "(char list \<Rightarrow> 'q \<Rightarrow> cpp_error + 'q) \<Rightarrow> (size_t \<Rightarrow> 'q \<Rightarrow> cpp_error + (char list \<times> 'q)) \<Rightarrow>
     queue_op list \<Rightarrow> 'q \<Rightarrow> cpp_error + (char list \<times> 'q)" where
  "run_queue push pop [] q = Inr ([], q)"
| "run_queue push pop (Push d # ops) q = bindE (push d q) (run_queue push pop ops)"
| "run_queue push pop (Pop n # ops) q =
     bindE (pop n q) (\<lambda>(bytes, q'). bindE (run_queue push pop ops q') (\<lambda>(out, q'').
       Inr (bytes @ out, q'')))"

text \<open>Nothing is lost, duplicated or reordered by the specification itself.\<close>

lemma spec_queue_fifo: "spec_queue ops q = Some (out, q') \<Longrightarrow> out @ q' = q @ pushed ops"
proof (induction ops q arbitrary: out rule: spec_queue.induct)
  case (3 n ops q)
  then obtain out' where "unat n \<le> length q" and "out = take (unat n) q @ out'"
      and "spec_queue ops (drop (unat n) q) = Some (out', q')"
    by (auto split: if_splits)
  with "3.IH" show ?case by simp
qed simp_all

locale byte_queue =
  fixes inv :: "'q \<Rightarrow> bool"
    and contents :: "'q \<Rightarrow> char list"
    and cap :: "'q \<Rightarrow> nat"
    and max_cap :: nat
    and push :: "char list \<Rightarrow> 'q \<Rightarrow> cpp_error + 'q"
    and pop :: "size_t \<Rightarrow> 'q \<Rightarrow> cpp_error + (char list \<times> 'q)"
  assumes push_law: "\<lbrakk> inv q; cap q + length d \<le> max_cap \<rbrakk> \<Longrightarrow>
      \<exists>q'. push d q = Inr q' \<and> inv q' \<and> contents q' = contents q @ d \<and> cap q' \<le> cap q + length d"
    and pop_law: "\<lbrakk> inv q; unat n \<le> length (contents q) \<rbrakk> \<Longrightarrow>
      \<exists>q'. pop n q = Inr (take (unat n) (contents q), q') \<and> inv q' \<and>
           contents q' = drop (unat n) (contents q) \<and> cap q' \<le> cap q"
begin

text \<open>Simulation: every run the specification allows, the implementation performs.\<close>

lemma run_refines_spec:
  "\<lbrakk> inv q; spec_queue ops (contents q) = Some (out, rest);
     cap q + length (pushed ops) \<le> max_cap \<rbrakk> \<Longrightarrow>
   \<exists>q'. run_queue push pop ops q = Inr (out, q') \<and> inv q' \<and> contents q' = rest"
proof (induction ops arbitrary: q out)
  case Nil
  then show ?case by simp
next
  case (Cons op ops)
  show ?case
  proof (cases op)
    case (Push d)
    then obtain q1 where q1: "push d q = Inr q1" "inv q1" "contents q1 = contents q @ d"
        "cap q1 \<le> cap q + length d"
      using Cons.prems push_law [of q d] by auto
    with Cons.prems Push Cons.IH [of q1 out] show ?thesis by simp
  next
    case (Pop n)
    with Cons.prems obtain out' where n: "unat n \<le> length (contents q)"
        and out: "out = take (unat n) (contents q) @ out'"
        and spec: "spec_queue ops (drop (unat n) (contents q)) = Some (out', rest)"
      by (auto split: if_splits)
    then obtain q1 where q1: "pop n q = Inr (take (unat n) (contents q), q1)" "inv q1"
        "contents q1 = drop (unat n) (contents q)" "cap q1 \<le> cap q"
      using Cons.prems pop_law [of q n] by auto
    with Cons.IH [of q1 out'] Cons.prems Pop spec
    obtain q2 where "run_queue push pop ops q1 = Inr (out', q2)" "inv q2" "contents q2 = rest"
      by auto
    with Pop q1 out show ?thesis by simp
  qed
qed

lemma run_fifo:
  assumes "inv q" and "spec_queue ops (contents q) = Some (out, rest)"
    and "cap q + length (pushed ops) \<le> max_cap"
  shows "\<exists>q'. run_queue push pop ops q = Inr (out, q') \<and>
      out @ contents q' = contents q @ pushed ops"
  using run_refines_spec [OF assms] spec_queue_fifo [OF assms(2)] by auto

end

end
