(* ===== verification/Byte_Buffer.thy ===== *)
theory Byte_Buffer
  imports System_Interface Byte_Queue
begin

text \<open>
  include/buffer.hpp and ZBuffer/buffer.cpp: the growable byte queue between a connection and
  its descriptor. The vector is a list of bytes, the two indices are \<open>size_t\<close> words that wrap as
  they do in C++. A range that leaves the vector is \<open>OutOfBounds\<close>, a \<open>resize\<close> above the
  vector's maximal size is \<open>LengthError\<close>; an allocation below it is taken to succeed.

  Layout of the vector, with \<open>8 \<le> readerIndex \<le> writerIndex \<le> size\<close>: the prependable bytes,
  then the readable bytes (the \<open>contents\<close>), then the writable bytes. The lemmas show that every
  operation keeps this layout and is the corresponding operation of a queue of bytes on the
  contents, whatever the indices and the reallocations do.
\<close>

definition kCheapPrepend :: size_t where "kCheapPrepend = 8"
definition kInitialSize :: size_t where "kInitialSize = 1024"

text \<open>\<open>vector<char>::max_size()\<close>, and the size of the stack buffer of \<open>readFd\<close>.\<close>

definition vec_max :: nat where "vec_max = 2 ^ 63 - 1"
definition extrabuf_size :: size_t where "extrabuf_size = 65536"

record buffer =
  buf_data :: "char list"
  buf_readerIndex :: size_t
  buf_writerIndex :: size_t

section \<open>Operations\<close>

definition vector_of_zeros :: "size_t \<Rightarrow> cpp_error + char list" where
  "vector_of_zeros n =
     (if vec_max < unat n then Inl LengthError else Inr (replicate (unat n) (CHR 0x00)))"

definition Buffer_new :: "size_t \<Rightarrow> cpp_error + buffer" where
  "Buffer_new initialSize =
     bindE (vector_of_zeros (kCheapPrepend + initialSize)) (\<lambda>cells.
       Inr \<lparr>buf_data = cells, buf_readerIndex = kCheapPrepend, buf_writerIndex = kCheapPrepend\<rparr>)"

definition buf_size :: "buffer \<Rightarrow> size_t" where
  "buf_size b = of_nat (length (buf_data b))"

definition readableBytes :: "buffer \<Rightarrow> size_t" where
  "readableBytes b = buf_writerIndex b - buf_readerIndex b"

definition writableBytes :: "buffer \<Rightarrow> size_t" where
  "writableBytes b = buf_size b - buf_writerIndex b"

definition prependableBytes :: "buffer \<Rightarrow> size_t" where
  "prependableBytes b = buf_readerIndex b - kCheapPrepend"

text \<open>\<open>peek()\<close> and \<open>beginWrite()\<close> are addresses in the vector: its index from \<open>begin()\<close>.\<close>

definition peek :: "buffer \<Rightarrow> size_t" where
  "peek b = buf_readerIndex b"

definition beginWrite :: "buffer \<Rightarrow> size_t" where
  "beginWrite b = buf_writerIndex b"

text \<open>\<open>len\<close> bytes read from an index of the vector.\<close>

definition read_range :: "buffer \<Rightarrow> size_t \<Rightarrow> size_t \<Rightarrow> cpp_error + char list" where
  "read_range b from len =
     (if length (buf_data b) < unat from + unat len then Inl OutOfBounds
      else Inr (take (unat len) (drop (unat from) (buf_data b))))"

definition retrieveAll :: "buffer \<Rightarrow> buffer" where
  "retrieveAll b = b\<lparr>buf_readerIndex := kCheapPrepend, buf_writerIndex := kCheapPrepend\<rparr>"

definition retrieve :: "size_t \<Rightarrow> buffer \<Rightarrow> buffer" where
  "retrieve len b =
     (if len < readableBytes b then b\<lparr>buf_readerIndex := buf_readerIndex b + len\<rparr>
      else retrieveAll b)"

definition retrieveAllAsString :: "buffer \<Rightarrow> cpp_error + (string \<times> buffer)" where
  "retrieveAllAsString b =
     bindE (read_range b (peek b) (readableBytes b)) (\<lambda>result. Inr (result, retrieveAll b))"

definition retrieveAsString :: "size_t \<Rightarrow> buffer \<Rightarrow> cpp_error + (string \<times> buffer)" where
  "retrieveAsString len b =
     bindE (read_range b (peek b) len) (\<lambda>result. Inr (result, retrieve len b))"

definition vector_resize :: "size_t \<Rightarrow> char list \<Rightarrow> cpp_error + char list" where
  "vector_resize n cells =
     (if vec_max < unat n then Inl LengthError
      else Inr (take (unat n) cells @ replicate (unat n - length cells) (CHR 0x00)))"

definition makeSpace :: "size_t \<Rightarrow> buffer \<Rightarrow> cpp_error + buffer" where
  "makeSpace len b =
     (if writableBytes b + prependableBytes b < len then
        bindE (vector_resize (buf_writerIndex b + len) (buf_data b)) (\<lambda>cells.
          Inr (b\<lparr>buf_data := cells\<rparr>))
      else
        (let readable = readableBytes b in
         if length (buf_data b) < unat (buf_writerIndex b) then Inl OutOfBounds
         else Inr (b\<lparr>
           buf_data := copy_forward (unat (buf_writerIndex b) - unat (buf_readerIndex b))
                         (unat (buf_readerIndex b)) (unat kCheapPrepend) (buf_data b),
           buf_readerIndex := kCheapPrepend,
           buf_writerIndex := kCheapPrepend + readable\<rparr>)))"

definition ensureWritableBytes :: "size_t \<Rightarrow> buffer \<Rightarrow> cpp_error + buffer" where
  "ensureWritableBytes len b = (if writableBytes b < len then makeSpace len b else Inr b)"

text \<open>
  \<open>append(data, len)\<close>: \<open>data\<close> is the array that starts at the pointer. Copying more bytes than
  the array has, or past the end of the vector, is out of bounds.
\<close>

definition append_bytes :: "char list \<Rightarrow> size_t \<Rightarrow> buffer \<Rightarrow> cpp_error + buffer" where
  "append_bytes data len b =
     bindE (ensureWritableBytes len b) (\<lambda>b'.
       if length data < unat len \<or> length (buf_data b') < unat (beginWrite b') + unat len
       then Inl OutOfBounds
       else Inr (b'\<lparr>
         buf_data := put_block (unat (beginWrite b')) (take (unat len) data) (buf_data b'),
         buf_writerIndex := buf_writerIndex b' + len\<rparr>))"

text \<open>
  \<open>readFd\<close>: one \<open>readv\<close> into the writable bytes and, when these are fewer than 64K, into a stack
  buffer behind them. The kernel fills the two in this order; what went into the stack buffer
  is appended. Returns the count, what is stored through \<open>saveErrno\<close>, and the new state.
\<close>

definition readFd ::
    "os \<Rightarrow> int \<Rightarrow> buffer \<Rightarrow> 'a io_state_scheme \<Rightarrow>
     cpp_error + (int \<times> int option \<times> buffer \<times> 'a io_state_scheme)" where
  "readFd os f b w =
     (let writable = writableBytes b;
          room = (if writable < extrabuf_size then unat writable + unat extrabuf_size
                  else unat writable);
          (n, got, w') = sys_read os f room w;
          direct = take (unat writable) got;
          extrabuf = drop (unat writable) got
      in if n < 0 then Inr (n, Some (io_errno w'), b, w')
         else if length (buf_data b) < unat (buf_writerIndex b) + length direct then Inl OutOfBounds
         else
           (let b' = b\<lparr>buf_data := put_block (unat (buf_writerIndex b)) direct (buf_data b)\<rparr>
            in if (of_int n :: size_t) \<le> writable then
                 Inr (n, None, b'\<lparr>buf_writerIndex := buf_writerIndex b' + of_int n\<rparr>, w')
               else
                 bindE (append_bytes extrabuf (of_int n - writable)
                          (b'\<lparr>buf_writerIndex := buf_size b'\<rparr>)) (\<lambda>b''.
                   Inr (n, None, b'', w'))))"

definition writeFd ::
    "os \<Rightarrow> int \<Rightarrow> buffer \<Rightarrow> 'a io_state_scheme \<Rightarrow>
     cpp_error + (int \<times> int option \<times> 'a io_state_scheme)" where
  "writeFd os f b w =
     bindE (read_range b (peek b) (readableBytes b)) (\<lambda>bytes.
       let (n, w') = sys_write os f bytes w
       in if n < 0 then Inr (n, Some (io_errno w'), w') else Inr (n, None, w'))"

section \<open>The layout invariant and the contents\<close>

definition buf_inv :: "buffer \<Rightarrow> bool" where
  "buf_inv b \<longleftrightarrow>
     8 \<le> unat (buf_readerIndex b) \<and> unat (buf_readerIndex b) \<le> unat (buf_writerIndex b) \<and>
     unat (buf_writerIndex b) \<le> length (buf_data b) \<and> length (buf_data b) \<le> vec_max"

definition contents :: "buffer \<Rightarrow> char list" where
  "contents b = take (unat (buf_writerIndex b) - unat (buf_readerIndex b))
                  (drop (unat (buf_readerIndex b)) (buf_data b))"

lemma buf_invD:
  assumes "buf_inv b"
  shows "8 \<le> unat (buf_readerIndex b)" "unat (buf_readerIndex b) \<le> unat (buf_writerIndex b)"
    "unat (buf_writerIndex b) \<le> length (buf_data b)" "length (buf_data b) \<le> vec_max"
    "length (buf_data b) < 9223372036854775808"
  using assms by (auto simp: buf_inv_def vec_max_def)

lemma vec_max_bound [size_simps]: "n \<le> vec_max \<Longrightarrow> n < 18446744073709551616"
  by (simp add: vec_max_def)

lemma unat_kCheapPrepend [simp]: "unat kCheapPrepend = 8"
  by (simp add: kCheapPrepend_def)

lemma unat_extrabuf_size [simp]: "unat extrabuf_size = 65536"
  by (simp add: extrabuf_size_def)

lemma buf_sizes:
  assumes "buf_inv b"
  shows unat_buf_size: "unat (buf_size b) = length (buf_data b)"
    and unat_readable: "unat (readableBytes b) = unat (buf_writerIndex b) - unat (buf_readerIndex b)"
    and unat_writable: "unat (writableBytes b) = length (buf_data b) - unat (buf_writerIndex b)"
    and unat_prependable: "unat (prependableBytes b) = unat (buf_readerIndex b) - 8"
    and length_contents: "length (contents b) = unat (readableBytes b)"
proof -
  show s: "unat (buf_size b) = length (buf_data b)"
    using assms by (simp add: buf_inv_def buf_size_def size_simps)
  show "unat (writableBytes b) = length (buf_data b) - unat (buf_writerIndex b)"
    using assms s by (simp add: buf_inv_def writableBytes_def size_simps)
  show "unat (prependableBytes b) = unat (buf_readerIndex b) - 8"
    using assms by (simp add: buf_inv_def prependableBytes_def size_simps)
  show r: "unat (readableBytes b) = unat (buf_writerIndex b) - unat (buf_readerIndex b)"
    using assms by (simp add: buf_inv_def readableBytes_def size_simps)
  show "length (contents b) = unat (readableBytes b)"
    using buf_invD [OF assms] by (simp add: r contents_def)
qed

lemma read_contents:
  assumes "buf_inv b" and "unat len \<le> length (contents b)"
  shows "read_range b (peek b) len = Inr (take (unat len) (contents b))"
proof -
  have "unat (buf_readerIndex b) + unat len \<le> unat (buf_writerIndex b)"
    using assms(2) buf_invD [OF assms(1)] length_contents [OF assms(1)] unat_readable [OF assms(1)]
    by linarith
  then show ?thesis
    using buf_invD [OF assms(1)] by (simp add: read_range_def peek_def contents_def)
qed

lemma read_all_contents:
  "buf_inv b \<Longrightarrow> read_range b (peek b) (readableBytes b) = Inr (contents b)"
  by (simp add: read_contents length_contents)

subsection \<open>A new buffer\<close>

lemma Buffer_new_correct:
  assumes "Buffer_new n = Inr b" and "unat n \<le> vec_max"
  shows "buf_inv b" and "contents b = []"
proof -
  have "unat (kCheapPrepend + n) = 8 + unat n"
    using assms(2) by (subst unat_add_small) (simp_all add: vec_max_def)
  with assms(1) show "buf_inv b" and "contents b = []"
    by (auto simp: Buffer_new_def vector_of_zeros_def bind_simps buf_inv_def contents_def
        split: if_splits)
qed

subsection \<open>Retrieving\<close>

lemma retrieveAll_correct [simp]:
  "buf_inv b \<Longrightarrow> buf_inv (retrieveAll b)"
  "contents (retrieveAll b) = []"
  by (auto simp: retrieveAll_def buf_inv_def contents_def)

lemma retrieve_correct:
  assumes "buf_inv b"
  shows "buf_inv (retrieve len b)"
    and "contents (retrieve len b) = drop (unat len) (contents b)"
proof -
  have less: "len < readableBytes b \<longleftrightarrow> unat len < length (contents b)"
    using assms by (simp add: word_less_nat_alt length_contents)
  have add: "unat (buf_readerIndex b + len) = unat (buf_readerIndex b) + unat len"
    if "unat len < length (contents b)"
    using that buf_invD [OF assms] length_contents [OF assms] unat_readable [OF assms]
    by (intro unat_add_small) linarith
  show "buf_inv (retrieve len b)"
    using assms add length_contents [OF assms] unat_readable [OF assms]
    by (auto simp: retrieve_def less buf_inv_def retrieveAll_def)
  show "contents (retrieve len b) = drop (unat len) (contents b)"
    using add
    by (auto simp: retrieve_def less) (simp add: contents_def drop_take add.commute)
qed

lemma retrieveAllAsString_correct:
  "buf_inv b \<Longrightarrow> retrieveAllAsString b = Inr (contents b, retrieveAll b)"
  by (simp add: retrieveAllAsString_def read_all_contents)

lemma retrieveAsString_correct:
  "buf_inv b \<Longrightarrow> unat len \<le> length (contents b) \<Longrightarrow>
   retrieveAsString len b = Inr (take (unat len) (contents b), retrieve len b)"
  by (simp add: retrieveAsString_def read_contents)

subsection \<open>Making room\<close>

text \<open>
  \<open>room_for b len\<close>: the request can be met, by moving the contents to the front or by a vector
  that is not larger than vectors can be.
\<close>

definition room_for :: "buffer \<Rightarrow> nat \<Rightarrow> bool" where
  "room_for b len \<longleftrightarrow>
     len \<le> length (buf_data b) - 8 - length (contents b) \<or>
     unat (buf_writerIndex b) + len \<le> vec_max"

lemma makeSpace_grow:
  assumes inv: "buf_inv b" and grow: "writableBytes b + prependableBytes b < len"
    and bound: "unat (buf_writerIndex b) + unat len < 18446744073709551616"
  shows "makeSpace len b =
      (if vec_max < unat (buf_writerIndex b) + unat len then Inl LengthError
       else Inr (b\<lparr>buf_data := buf_data b @
                  replicate (unat (buf_writerIndex b) + unat len - length (buf_data b)) (CHR 0x00)\<rparr>))"
proof -
  have sum: "unat (buf_writerIndex b + len) = unat (buf_writerIndex b) + unat len"
    using bound by (simp add: size_simps)
  have "unat (writableBytes b + prependableBytes b) = unat (writableBytes b) + unat (prependableBytes b)"
    using inv by (intro unat_add_small)
      (auto simp: unat_writable unat_prependable buf_inv_def vec_max_def)
  then have "length (buf_data b) \<le> unat (buf_writerIndex b) + unat len"
    using grow inv by (auto simp: word_less_nat_alt unat_writable unat_prependable buf_inv_def)
  with grow sum show ?thesis
    by (simp add: makeSpace_def vector_resize_def)
qed

lemma grow_iff:
  assumes "buf_inv b"
  shows "writableBytes b + prependableBytes b < len \<longleftrightarrow>
      length (buf_data b) - 8 - length (contents b) < unat len"
proof -
  have "unat (writableBytes b + prependableBytes b) = unat (writableBytes b) + unat (prependableBytes b)"
    using buf_invD [OF assms]
    by (intro unat_add_small) (simp add: unat_writable [OF assms] unat_prependable [OF assms])
  also have "\<dots> = length (buf_data b) - 8 - length (contents b)"
    using buf_invD [OF assms]
    by (simp add: unat_writable [OF assms] unat_prependable [OF assms] unat_readable [OF assms]
        length_contents [OF assms])
  finally show ?thesis by (simp add: word_less_nat_alt)
qed

lemma makeSpace_move:
  assumes inv: "buf_inv b" and short: "writableBytes b < len"
    and fits: "\<not> writableBytes b + prependableBytes b < len"
  shows "makeSpace len b = Inr (b\<lparr>buf_data := put_block 8 (contents b) (buf_data b),
           buf_readerIndex := kCheapPrepend, buf_writerIndex := kCheapPrepend + readableBytes b\<rparr>)"
proof -
  have "length (buf_data b) - unat (buf_writerIndex b) < unat len"
    using short by (simp add: word_less_nat_alt unat_writable [OF inv])
  then have "8 < unat (buf_readerIndex b)"
    using fits buf_invD [OF inv]
    unfolding grow_iff [OF inv] length_contents [OF inv] unat_readable [OF inv] by linarith
  then have "copy_forward (unat (buf_writerIndex b) - unat (buf_readerIndex b))
      (unat (buf_readerIndex b)) 8 (buf_data b) = put_block 8 (contents b) (buf_data b)"
    using buf_invD [OF inv] unfolding contents_def by (intro copy_forward_eq_put_block) simp_all
  with fits buf_invD [OF inv] show ?thesis by (simp add: makeSpace_def Let_def)
qed

lemma moved_buffer:
  assumes inv: "buf_inv b"
    and b': "b' = b\<lparr>buf_data := put_block 8 (contents b) (buf_data b),
           buf_readerIndex := kCheapPrepend, buf_writerIndex := kCheapPrepend + readableBytes b\<rparr>"
  shows "buf_inv b'" and "contents b' = contents b"
    and "unat (buf_writerIndex b') = 8 + length (contents b)"
    and "length (buf_data b') = length (buf_data b)"
proof -
  have len: "8 + length (contents b) \<le> length (buf_data b)"
    using buf_invD [OF inv] by (simp add: length_contents [OF inv] unat_readable [OF inv])
  show w: "unat (buf_writerIndex b') = 8 + length (contents b)"
    using len buf_invD [OF inv] by (simp add: b' length_contents [OF inv, symmetric] size_simps)
  show l: "length (buf_data b') = length (buf_data b)"
    using len by (simp add: b')
  show "buf_inv b'"
    using w l len buf_invD [OF inv] by (simp add: buf_inv_def) (simp add: b')
  show "contents b' = contents b"
    using w len by (simp add: contents_def [of b']) (simp add: b' put_block_def)
qed

lemma grown_buffer:
  assumes inv: "buf_inv b" and bound: "length (buf_data b) + k \<le> vec_max"
    and b': "b' = b\<lparr>buf_data := buf_data b @ replicate k (CHR 0x00)\<rparr>"
  shows "buf_inv b'" and "contents b' = contents b"
    and "buf_writerIndex b' = buf_writerIndex b"
    and "length (buf_data b') = length (buf_data b) + k"
  using bound buf_invD [OF inv] by (auto simp: b' buf_inv_def contents_def)

text \<open>
  \<open>ensureWritableBytes\<close> keeps layout and contents and makes the room that was asked for. It fails
  only when no vector is large enough.
\<close>

lemma ensureWritableBytes_correct:
  assumes inv: "buf_inv b" and bound: "unat (buf_writerIndex b) + unat len < 18446744073709551616"
  shows "if room_for b (unat len)
     then \<exists>b'. ensureWritableBytes len b = Inr b' \<and> buf_inv b' \<and> contents b' = contents b \<and>
               unat (buf_writerIndex b') + unat len \<le> length (buf_data b')
     else ensureWritableBytes len b = Inl LengthError"
proof (cases "writableBytes b < len")
  case False
  then have "unat (buf_writerIndex b) + unat len \<le> length (buf_data b)"
    using buf_invD [OF inv] by (simp add: word_less_nat_alt unat_writable [OF inv])
  with False inv buf_invD [OF inv] show ?thesis
    by (auto simp: ensureWritableBytes_def room_for_def)
next
  case short: True
  show ?thesis
  proof (cases "writableBytes b + prependableBytes b < len")
    case False
    then have "unat len \<le> length (buf_data b) - 8 - length (contents b)"
      by (simp add: grow_iff [OF inv])
    moreover have "8 + length (contents b) \<le> length (buf_data b)"
      using buf_invD [OF inv] by (simp add: length_contents [OF inv] unat_readable [OF inv])
    ultimately show ?thesis
      using short makeSpace_move [OF inv short False] moved_buffer [OF inv refl]
      by (auto simp: ensureWritableBytes_def room_for_def)
  next
    case True
    let ?k = "unat (buf_writerIndex b) + unat len - length (buf_data b)"
    have gt: "length (buf_data b) \<le> unat (buf_writerIndex b) + unat len"
      using short buf_invD [OF inv] by (simp add: word_less_nat_alt unat_writable [OF inv])
    have "\<not> unat len \<le> length (buf_data b) - 8 - length (contents b)"
      using True by (simp add: grow_iff [OF inv])
    with short makeSpace_grow [OF inv True bound] gt grown_buffer [OF inv _ refl, of ?k]
    show ?thesis by (auto simp: ensureWritableBytes_def room_for_def)
  qed
qed

subsection \<open>Appending\<close>

lemma written_buffer:
  assumes inv: "buf_inv b" and fits: "unat (buf_writerIndex b) + length d \<le> length (buf_data b)"
    and b': "b' = b\<lparr>buf_data := put_block (unat (buf_writerIndex b)) d (buf_data b),
                     buf_writerIndex := buf_writerIndex b + of_nat (length d)\<rparr>"
  shows "buf_inv b'" and "contents b' = contents b @ d"
proof -
  have n: "unat (of_nat (length d) :: size_t) = length d"
    using fits buf_invD [OF inv] by (simp add: size_simps)
  have w: "unat (buf_writerIndex b') = unat (buf_writerIndex b) + length d"
    using fits buf_invD [OF inv] n by (simp add: b' size_simps)
  show "buf_inv b'" using w fits inv by (simp add: buf_inv_def) (simp add: b')
  have "take (unat (buf_writerIndex b')) (buf_data b') = take (unat (buf_writerIndex b)) (buf_data b) @ d"
    using fits unfolding w by (simp add: b' take_put_block_end)
  then show "contents b' = contents b @ d"
    using buf_invD [OF inv] by (simp add: contents_def take_drop [symmetric] drop_take [symmetric] b')
qed

lemma append_bytes_correct:
  assumes inv: "buf_inv b" and len: "unat len \<le> length data"
    and bound: "unat (buf_writerIndex b) + unat len < 18446744073709551616"
  shows "if room_for b (unat len)
     then \<exists>b'. append_bytes data len b = Inr b' \<and> buf_inv b' \<and>
               contents b' = contents b @ take (unat len) data
     else append_bytes data len b = Inl LengthError"
proof (cases "room_for b (unat len)")
  case False
  then show ?thesis
    using ensureWritableBytes_correct [OF inv bound] by (simp add: append_bytes_def)
next
  case True
  then obtain c where c: "ensureWritableBytes len b = Inr c" "buf_inv c" "contents c = contents b"
      "unat (buf_writerIndex c) + unat len \<le> length (buf_data c)"
    using ensureWritableBytes_correct [OF inv bound] by auto
  have "length (take (unat len) data) = unat len" using len by simp
  with c written_buffer [OF c(2) _ refl, of "take (unat len) data"] True len show ?thesis
    by (simp add: append_bytes_def beginWrite_def)
qed

subsection \<open>Exchanging bytes with a descriptor\<close>

text \<open>
  \<open>readFd\<close> on a delivery of \<open>got\<close>: wherever the boundary between the vector and the stack buffer
  falls, the contents grow by exactly the bytes delivered.
\<close>

lemma readFd_delivery:
  assumes inv: "buf_inv b" and small: "length (buf_data b) + 65536 \<le> vec_max"
    and rd: "sys_read os f
          (if writableBytes b < extrabuf_size then unat (writableBytes b) + unat extrabuf_size
           else unat (writableBytes b)) w = (int (length got), got, w')"
    and le: "length got \<le> unat (writableBytes b) + 65536"
  shows "\<exists>b'. readFd os f b w = Inr (int (length got), None, b', w') \<and> buf_inv b' \<and>
      contents b' = contents b @ got"
proof -
  let ?wr = "unat (writableBytes b)"
  have wr: "?wr = length (buf_data b) - unat (buf_writerIndex b)" by (rule unat_writable [OF inv])
  have n: "unat (of_nat (length got) :: size_t) = length got"
    using le small by (intro unat_of_nat_small) (simp add: wr vec_max_def)
  define c where "c = b\<lparr>buf_data := put_block (unat (buf_writerIndex b)) (take ?wr got) (buf_data b)\<rparr>"
  have fits: "unat (buf_writerIndex b) + length (take ?wr got) \<le> length (buf_data b)"
    using buf_invD [OF inv] wr by simp
  note w = written_buffer [OF inv fits refl]
  show ?thesis
  proof (cases "length got \<le> ?wr")
    case True
    then have "take ?wr got = got" by simp
    with True w fits show ?thesis
      by (auto simp: readFd_def rd Let_def word_le_nat_alt n)
  next
    case False
    have d: "buf_writerIndex b + of_nat ?wr = buf_size b"
      by (simp add: writableBytes_def)
    have m: "length (take ?wr got) = ?wr" using False by simp
    let ?full = "c\<lparr>buf_writerIndex := buf_size c\<rparr>"
    have "buf_size c = buf_size b"
      using fits by (simp add: c_def buf_size_def)
    then have full: "buf_inv ?full" "contents ?full = contents b @ take ?wr got"
      using w unfolding m d by (simp_all add: c_def)
    have size_c: "length (buf_data c) = length (buf_data b)"
      using fits by (simp add: c_def)
    have extra: "unat (of_nat (length got) - writableBytes b) = length (drop ?wr got)"
      using False n by (simp add: unat_sub_le)
    have wi: "unat (buf_writerIndex ?full) = length (buf_data b)"
      using unat_buf_size [OF inv] \<open>buf_size c = buf_size b\<close> by simp
    have "room_for ?full (length (drop ?wr got))"
      using le small unfolding room_for_def wi length_drop by linarith
    moreover have "unat (buf_writerIndex ?full) + unat (of_nat (length got) - writableBytes b)
        < 18446744073709551616"
      using le small unfolding wi extra by (simp add: vec_max_def)
    ultimately obtain b' where "append_bytes (drop ?wr got) (of_nat (length got) - writableBytes b) ?full
        = Inr b'" "buf_inv b'" "contents b' = contents ?full @ drop ?wr got"
      using append_bytes_correct [OF full(1), of "of_nat (length got) - writableBytes b" "drop ?wr got"]
      unfolding extra by auto
    with False fits full(2) show ?thesis
      by (auto simp: readFd_def rd Let_def word_le_nat_alt n c_def)
  qed
qed

lemma readFd_correct:
  assumes inv: "buf_inv b" and small: "length (buf_data b) + 65536 \<le> vec_max"
  obtains (fail) e w' where "readFd os f b w = Inr (-1, Some e, b, w')"
      "w' = note_event (ReadFailed f e) (w\<lparr>io_errno := e\<rparr>)"
  | (ok) got b' w' where "readFd os f b w = Inr (int (length got), None, b', w')"
      "w' = note_event (Received f got) w" "buf_inv b'" "contents b' = contents b @ got"
proof -
  let ?room = "if writableBytes b < extrabuf_size then unat (writableBytes b) + unat extrabuf_size
           else unat (writableBytes b)"
  show ?thesis
  proof (cases rule: sys_read_cases [of os f ?room w])
    case (fail e)
    then show ?thesis by (intro that(1)) (simp_all add: readFd_def Let_def)
  next
    case (ok got)
    then have "length got \<le> unat (writableBytes b) + 65536" by (auto split: if_splits)
    with ok readFd_delivery [OF inv small ok(2)] show ?thesis by (blast intro: that(2))
  qed
qed

lemma writeFd_correct:
  assumes "buf_inv b"
  obtains (fail) e w' where "writeFd os f b w = Inr (-1, Some e, w')"
      "w' = note_event (WriteFailed f e) (w\<lparr>io_errno := e\<rparr>)"
  | (ok) n where "n \<le> length (contents b)"
      "writeFd os f b w = Inr (int n, None, note_event (Wrote f (take n (contents b))) w)"
  using assms
  by (cases rule: sys_write_cases [of os f "contents b" w])
    (auto simp: writeFd_def read_all_contents Let_def)

text \<open>Whatever the sizes, a buffer that comes out of an operation is well formed.\<close>

lemma append_bytes_inv:
  assumes inv: "buf_inv b" and run: "append_bytes data len b = Inr b'"
  shows "buf_inv b'"
proof -
  from run obtain d where d: "ensureWritableBytes len b = Inr d" "unat len \<le> length data"
      "unat (beginWrite d) + unat len \<le> length (buf_data d)"
    by (auto simp: append_bytes_def bind_simps split: if_splits)
  show ?thesis
  proof (cases "unat (buf_writerIndex b) + unat len < 18446744073709551616")
    case True
    from append_bytes_correct [OF inv d(2) True] run show ?thesis by (auto split: if_splits)
  next
    case False
    note D = buf_invD [OF inv]
    have "length (buf_data d) \<le> vec_max \<and> buf_writerIndex d = buf_writerIndex b"
    proof (cases "writableBytes b + prependableBytes b < len \<and> writableBytes b < len")
      case True
      then show ?thesis
        using d(1) by (auto simp: ensureWritableBytes_def makeSpace_def vector_resize_def bind_simps
          vec_max_def split: if_splits)
    next
      case noroom: False
      have "unat (writableBytes b) + unat (prependableBytes b) < 18446744073709551616"
        using unat_writable [OF inv] unat_prependable [OF inv] D by (simp add: vec_max_def)
      then have s: "unat (writableBytes b + prependableBytes b) = unat (writableBytes b) + unat (prependableBytes b)"
        by (rule unat_add_small)
      have "unat len \<le> unat (writableBytes b) + unat (prependableBytes b)"
        using noroom s by (auto simp: word_less_nat_alt not_less)
      then show ?thesis
        using False unat_writable [OF inv] unat_prependable [OF inv] D by (simp add: vec_max_def)
    qed
    with d(3) False show ?thesis by (simp add: beginWrite_def vec_max_def)
  qed
qed

lemma readFd_inv:
  assumes inv: "buf_inv b" and run: "readFd os f b w = Inr (n, e, b', w')"
  shows "buf_inv b'"
proof -
  let ?room = "if writableBytes b < extrabuf_size then unat (writableBytes b) + unat extrabuf_size
           else unat (writableBytes b)"
  let ?wr = "unat (writableBytes b)"
  note D = buf_invD [OF inv]
  have wr: "?wr = length (buf_data b) - unat (buf_writerIndex b)" by (rule unat_writable [OF inv])
  show ?thesis
  proof (cases rule: sys_read_cases [of os f ?room w])
    case (fail e)
    with run inv show ?thesis by (simp add: readFd_def Let_def)
  next
    case (ok got)
    have le: "length got \<le> ?wr + 65536" using ok(1) by (auto split: if_splits)
    have fits: "unat (buf_writerIndex b) + length (take ?wr got) \<le> length (buf_data b)"
      using D wr by simp
    note w = written_buffer [OF inv fits refl]
    have nn: "unat (of_nat (length got) :: size_t) = length got"
      using le D by (intro unat_of_nat_small) (simp add: wr)
    show ?thesis
    proof (cases "length got \<le> ?wr")
      case True
      then have "take ?wr got = got" by simp
      with True w fits ok run show ?thesis
        by (auto simp: readFd_def Let_def word_le_nat_alt nn)
    next
      case False
      define c where "c = b\<lparr>buf_data := put_block (unat (buf_writerIndex b)) (take ?wr got) (buf_data b)\<rparr>"
      have d: "buf_writerIndex b + of_nat ?wr = buf_size b" by (simp add: writableBytes_def)
      have m: "length (take ?wr got) = ?wr" using False by simp
      have "buf_size c = buf_size b" using fits by (simp add: c_def buf_size_def)
      then have full: "buf_inv (c\<lparr>buf_writerIndex := buf_size c\<rparr>)"
        using w(1) unfolding m d by (simp add: c_def)
      from ok run False fits
      have "append_bytes (drop ?wr got) (of_nat (length got) - writableBytes b)
          (c\<lparr>buf_writerIndex := buf_size c\<rparr>) = Inr b'"
        by (auto simp: readFd_def Let_def word_le_nat_alt nn bind_simps c_def)
      with full show ?thesis by (rule append_bytes_inv)
    qed
  qed
qed

subsection \<open>The buffer is a byte queue\<close>

text \<open>A push never needs a vector larger than the old one plus the pushed bytes.\<close>

lemma makeSpace_size:
  assumes inv: "buf_inv b" and short: "writableBytes b < len" and mk: "makeSpace len b = Inr b'"
    and bound: "unat (buf_writerIndex b) + unat len < 18446744073709551616"
  shows "length (buf_data b') \<le> length (buf_data b) + unat len"
proof (cases "writableBytes b + prependableBytes b < len")
  case True
  then show ?thesis
    using mk makeSpace_grow [OF inv True bound] buf_invD [OF inv] by (auto split: if_splits)
next
  case False
  then show ?thesis
    using mk makeSpace_move [OF inv short False] moved_buffer(4) [OF inv refl] by auto
qed

lemma append_bytes_size:
  assumes inv: "buf_inv b" and ap: "append_bytes data len b = Inr b'"
    and bound: "unat (buf_writerIndex b) + unat len < 18446744073709551616"
  shows "length (buf_data b') \<le> length (buf_data b) + unat len"
proof -
  from ap obtain c where c: "ensureWritableBytes len b = Inr c"
      "unat len \<le> length data" "unat (buf_writerIndex c) + unat len \<le> length (buf_data c)"
      "length (buf_data b') = length (buf_data c)"
    by (auto simp: append_bytes_def bind_simps beginWrite_def split: if_splits)
  then show ?thesis
    using makeSpace_size [OF inv _ _ bound] by (auto simp: ensureWritableBytes_def split: if_splits)
qed

definition push_string :: "char list \<Rightarrow> buffer \<Rightarrow> cpp_error + buffer" where
  "push_string d = append_bytes d (of_nat (length d))"

lemma push_string_correct:
  assumes inv: "buf_inv b" and room: "length (buf_data b) + length d \<le> vec_max"
  shows "\<exists>b'. push_string d b = Inr b' \<and> buf_inv b' \<and> contents b' = contents b @ d \<and>
      length (buf_data b') \<le> length (buf_data b) + length d"
proof -
  have n: "unat (of_nat (length d) :: size_t) = length d"
    using room by (intro unat_of_nat_small) (simp add: vec_max_def)
  have bound: "unat (buf_writerIndex b) + unat (of_nat (length d) :: size_t) < 18446744073709551616"
    using room buf_invD [OF inv] unfolding n by (simp add: vec_max_def)
  have "room_for b (unat (of_nat (length d) :: size_t))"
    using room buf_invD [OF inv] unfolding n room_for_def by linarith
  then obtain b' where "push_string d b = Inr b'" "buf_inv b'" "contents b' = contents b @ d"
    using append_bytes_correct [OF inv _ bound, of d] by (auto simp: n push_string_def)
  with append_bytes_size [OF inv _ bound, of d] show ?thesis
    unfolding n push_string_def by blast
qed

interpretation bq: byte_queue buf_inv contents "\<lambda>b. length (buf_data b)" vec_max
  push_string retrieveAsString
proof
  show "\<exists>q'. push_string d q = Inr q' \<and> buf_inv q' \<and> contents q' = contents q @ d \<and>
      length (buf_data q') \<le> length (buf_data q) + length d"
    if "buf_inv q" "length (buf_data q) + length d \<le> vec_max" for q d
    using that by (rule push_string_correct)
  show "\<exists>q'. retrieveAsString n q = Inr (take (unat n) (contents q), q') \<and> buf_inv q' \<and>
      contents q' = drop (unat n) (contents q) \<and> length (buf_data q') \<le> length (buf_data q)"
    if "buf_inv q" "unat n \<le> length (contents q)" for q n
    using that retrieve_correct [OF that(1)]
    by (auto simp: retrieveAsString_correct retrieve_def retrieveAll_def)
qed

section \<open>Properties\<close>

text \<open>
  C10. Any sequence of appends and \<open>retrieveAsString\<close> calls that never asks for more bytes than
  are readable delivers, in order, exactly the bytes a list queue delivers, without exception and
  without undefined behaviour, whatever the moves and reallocations inside \<open>makeSpace\<close>; in
  particular delivered bytes followed by the readable ones are the bytes ever put in.
\<close>

theorem buffer_refines_queue:
  assumes "buf_inv b" and "spec_queue ops (contents b) = Some (out, rest)"
    and "length (buf_data b) + length (pushed ops) \<le> vec_max"
  shows "\<exists>b'. run_queue push_string retrieveAsString ops b = Inr (out, b') \<and> buf_inv b' \<and>
      contents b' = rest \<and> out @ contents b' = contents b @ pushed ops"
  using bq.run_refines_spec [OF assms] spec_queue_fifo [OF assms(2)] by auto

theorem buffer_refines_queue_witness:
  "\<exists>b'. run_queue push_string retrieveAsString [Push ''ab'', Pop 1, Push ''c'']
      \<lparr>buf_data = ''........xy'', buf_readerIndex = 8, buf_writerIndex = 10\<rparr> = Inr (''x'', b') \<and>
    buf_inv b' \<and> contents b' = ''yabc'' \<and> ''x'' @ contents b' = ''xy'' @ ''abc''"
proof -
  let ?b = "\<lparr>buf_data = ''........xy'', buf_readerIndex = 8, buf_writerIndex = 10\<rparr>"
  have c: "contents ?b = ''xy''" by (simp add: contents_def)
  have "buf_inv ?b" by (simp add: buf_inv_def vec_max_def)
  moreover have "spec_queue [Push ''ab'', Pop 1, Push ''c''] (contents ?b) = Some (''x'', ''yabc'')"
    by (simp add: c)
  ultimately show ?thesis
    using buffer_refines_queue [of ?b "[Push ''ab'', Pop 1, Push ''c'']" "''x''" "''yabc''"]
    by (simp add: c vec_max_def)
qed

text \<open>
  C31. \<open>append\<close> of a real array (of at most \<open>PTRDIFF_MAX\<close> bytes) either adds its first \<open>len\<close>
  bytes behind the readable ones, or throws \<open>length_error\<close>; it throws exactly when the bytes fit
  neither into the vector after compaction nor into the largest possible vector. It never
  writes outside the vector.
\<close>

theorem append_total:
  assumes "buf_inv b" and "unat len \<le> length data" and "length data \<le> vec_max"
  shows "(\<not> room_for b (unat len) \<longrightarrow> append_bytes data len b = Inl LengthError) \<and>
    (room_for b (unat len) \<longrightarrow> (\<exists>b'. append_bytes data len b = Inr b' \<and> buf_inv b' \<and>
      contents b' = contents b @ take (unat len) data))"
proof -
  have "unat (buf_writerIndex b) + unat len < 18446744073709551616"
    using assms buf_invD [OF assms(1)] by (simp add: vec_max_def)
  from append_bytes_correct [OF assms(1,2) this] show ?thesis by (auto split: if_splits)
qed

theorem append_total_witness:
  "\<exists>b'. append_bytes ''hello'' 3
      \<lparr>buf_data = ''........xyz'', buf_readerIndex = 10, buf_writerIndex = 11\<rparr> = Inr b' \<and>
    buf_inv b' \<and> contents b' = ''zhel''"
proof -
  let ?b = "\<lparr>buf_data = ''........xyz'', buf_readerIndex = 10, buf_writerIndex = 11\<rparr>"
  have "buf_inv ?b" by (simp add: buf_inv_def vec_max_def)
  moreover have "room_for ?b (unat (3 :: size_t))"
    by (simp add: room_for_def vec_max_def)
  ultimately show ?thesis
    using append_total [of ?b 3 "''hello''"] by (simp add: vec_max_def contents_def)
qed

text \<open>
  C32. \<open>makeSpace\<close> reallocates only when it has to: if the readable bytes and the new ones fit
  behind the 8 prependable bytes, an append leaves the size of the vector as it is.
\<close>

theorem append_reuses_storage:
  assumes "buf_inv b" and "unat len \<le> length data"
    and "8 + length (contents b) + unat len \<le> length (buf_data b)"
  shows "\<exists>b'. append_bytes data len b = Inr b' \<and> length (buf_data b') = length (buf_data b) \<and>
      contents b' = contents b @ take (unat len) data"
proof -
  note inv = assms(1)
  have bound: "unat (buf_writerIndex b) + unat len < 18446744073709551616"
    using buf_invD [OF inv] assms(3) by linarith
  have "room_for b (unat len)" using assms(3) unfolding room_for_def by linarith
  then obtain b' where b': "append_bytes data len b = Inr b'" "contents b' = contents b @ take (unat len) data"
    using append_bytes_correct [OF inv assms(2) bound] by auto
  obtain c where c: "ensureWritableBytes len b = Inr c" "length (buf_data b') = length (buf_data c)"
    using b'(1) by (auto simp: append_bytes_def bind_simps beginWrite_def split: if_splits)
  have "\<not> writableBytes b + prependableBytes b < len"
    using assms(3) by (simp add: grow_iff [OF inv])
  then have "length (buf_data c) = length (buf_data b)"
    using c(1) makeSpace_move [OF inv] moved_buffer(4) [OF inv refl]
    by (auto simp: ensureWritableBytes_def split: if_splits)
  with b' c(2) show ?thesis by simp
qed

theorem append_reuses_storage_witness:
  "\<exists>b'. append_bytes ''hello'' 2
      \<lparr>buf_data = ''........xyz'', buf_readerIndex = 10, buf_writerIndex = 11\<rparr> = Inr b' \<and>
    length (buf_data b') = length ''........xyz'' \<and> contents b' = ''zhe''"
proof -
  let ?b = "\<lparr>buf_data = ''........xyz'', buf_readerIndex = 10, buf_writerIndex = 11\<rparr>"
  have c: "contents ?b = ''z''" by (simp add: contents_def)
  have "buf_inv ?b" by (simp add: buf_inv_def vec_max_def)
  from append_reuses_storage [OF this, of 2 "''hello''"] show ?thesis by (simp add: c)
qed

text \<open>
  C26. \<open>readFd\<close> loses no byte: whatever the kernel delivers in one call, into the vector alone or
  into vector and stack buffer, is appended to the readable bytes and counted; a failure leaves
  the buffer as it was and reports \<open>errno\<close>.
\<close>

theorem readFd_appends_delivery:
  assumes "buf_inv b" and "length (buf_data b) + 65536 \<le> vec_max"
  shows "\<exists>n err b' w'. readFd os f b w = Inr (n, err, b', w') \<and> buf_inv b' \<and>
      ((\<exists>e. n = -1 \<and> err = Some e \<and> b' = b \<and> io_trace w' = io_trace w @ [ReadFailed f e]) \<or>
       (\<exists>got. n = int (length got) \<and> err = None \<and> contents b' = contents b @ got \<and>
              io_trace w' = io_trace w @ [Received f got]))"
proof (cases rule: readFd_correct [OF assms, of os f w])
  case (1 e w')
  with assms(1) show ?thesis by auto
next
  case (2 got b' w')
  then show ?thesis by auto
qed

theorem readFd_appends_delivery_witness:
  "\<exists>n err b' w'. readFd (lab_os ''abc'' 0) 7
        \<lparr>buf_data = ''........xy'', buf_readerIndex = 8, buf_writerIndex = 9\<rparr> lab_io =
        Inr (n, err, b', w') \<and> buf_inv b' \<and> n = 3 \<and> contents b' = ''xabc''"
proof -
  let ?b = "\<lparr>buf_data = ''........xy'', buf_readerIndex = 8, buf_writerIndex = 9\<rparr>"
  have c: "contents ?b = ''x''" by (simp add: contents_def)
  have "buf_inv ?b" by (simp add: buf_inv_def vec_max_def)
  then obtain n err b' w' where r: "readFd (lab_os ''abc'' 0) 7 ?b lab_io = Inr (n, err, b', w')"
      "buf_inv b'"
      "(\<exists>e. n = -1 \<and> err = Some e \<and> b' = ?b \<and> io_trace w' = io_trace lab_io @ [ReadFailed 7 e]) \<or>
       (\<exists>got. n = int (length got) \<and> err = None \<and> contents b' = ''x'' @ got \<and>
              io_trace w' = io_trace lab_io @ [Received 7 got])"
    using readFd_appends_delivery [of ?b "lab_os ''abc'' 0" 7 lab_io] by (auto simp: c vec_max_def)
  have "io_trace w' = [Received 7 ''abc'']"
    using r(1) by (auto simp: readFd_def sys_read_def lab_os_def lab_io_def Let_def writableBytes_def
        buf_size_def extrabuf_size_def bind_simps word_less_nat_alt split: if_splits)
  with r show ?thesis by (auto simp: lab_io_def)
qed

text \<open>
  C37. \<open>retrieveAsString\<close> does not look at how many bytes are readable. Asked for more than that,
  it hands out cells behind the readable bytes while the vector has them, and reads outside the
  vector when it does not; either way the buffer ends up empty.
\<close>

theorem retrieveAsString_overread:
  assumes "buf_inv b" and "length (contents b) < unat len"
  shows "retrieveAsString len b =
      (if unat (buf_readerIndex b) + unat len \<le> length (buf_data b)
       then Inr (contents b @ take (unat len - length (contents b))
                   (drop (unat (buf_writerIndex b)) (buf_data b)), retrieveAll b)
       else Inl OutOfBounds)"
proof -
  have "retrieve len b = retrieveAll b"
    using assms by (auto simp: retrieve_def word_less_nat_alt length_contents)
  moreover have "take (unat len) (drop (unat (buf_readerIndex b)) (buf_data b)) =
      contents b @ take (unat len - length (contents b)) (drop (unat (buf_writerIndex b)) (buf_data b))"
  proof -
    let ?k = "length (contents b)"
    have k: "unat (buf_writerIndex b) = unat (buf_readerIndex b) + ?k"
      using buf_invD [OF assms(1)] by (simp add: length_contents [OF assms(1)] unat_readable [OF assms(1)])
    have "take (unat len) (drop (unat (buf_readerIndex b)) (buf_data b)) =
        take (?k + (unat len - ?k)) (drop (unat (buf_readerIndex b)) (buf_data b))"
      using assms(2) by simp
    also have "\<dots> = take ?k (drop (unat (buf_readerIndex b)) (buf_data b)) @
        take (unat len - ?k) (drop (unat (buf_writerIndex b)) (buf_data b))"
      unfolding take_add by (simp add: k add.commute)
    also have "take ?k (drop (unat (buf_readerIndex b)) (buf_data b)) = contents b"
      using k by (simp add: contents_def)
    finally show ?thesis .
  qed
  ultimately show ?thesis by (simp add: retrieveAsString_def read_range_def peek_def)
qed

theorem retrieveAsString_overread_witness:
  "retrieveAsString 3 \<lparr>buf_data = ''........asecret'', buf_readerIndex = 8, buf_writerIndex = 9\<rparr>
     = Inr (''ase'', \<lparr>buf_data = ''........asecret'', buf_readerIndex = 8, buf_writerIndex = 8\<rparr>)"
proof -
  let ?b = "\<lparr>buf_data = ''........asecret'', buf_readerIndex = 8, buf_writerIndex = 9\<rparr>"
  have c: "contents ?b = ''a''" by (simp add: contents_def)
  have "buf_inv ?b" by (simp add: buf_inv_def vec_max_def)
  from retrieveAsString_overread [OF this, of 3] show ?thesis
    by (simp add: c retrieveAll_def kCheapPrepend_def)
qed

end
