(* ===== verification/Channel.thy ===== *)
theory Channel
  imports System_Interface
begin

unbundle bit_operations_syntax

text \<open>
  include/channel.hpp and ZChannel/channel.cpp: a descriptor, the events it is interested in, the
  events the poller reported, and the four callbacks. A \<open>std::function\<close> that the program binds is
  named by a constructor of \<open>chan_cb\<close>; calling it is the parameter \<open>run\<close> of the dispatcher, tied to
  the handlers in the theory of the server. Channels live in a store addressed by
  \<open>chan_ptr\<close>; the weak pointer \<open>tie_\<close> names a connection, and whether it can be locked is the
  parameter \<open>alive\<close>.

  The functions that end in a call of the poller (\<open>enableReading\<close> and its kin, \<open>remove\<close>) are in
  the theory of the event loop, because they go through it.
\<close>

definition EPOLLIN :: "32 word" where "EPOLLIN = 1"
definition EPOLLPRI :: "32 word" where "EPOLLPRI = 2"
definition EPOLLOUT :: "32 word" where "EPOLLOUT = 4"
definition EPOLLERR :: "32 word" where "EPOLLERR = 8"
definition EPOLLHUP :: "32 word" where "EPOLLHUP = 16"

definition KNoneEvent :: "32 word" where "KNoneEvent = 0"
definition KReadEvent :: "32 word" where "KReadEvent = EPOLLIN OR EPOLLPRI"
definition KWriteEvent :: "32 word" where "KWriteEvent = EPOLLOUT"

lemmas epoll_bits = EPOLLIN_def EPOLLPRI_def EPOLLOUT_def EPOLLERR_def EPOLLHUP_def
  KNoneEvent_def KReadEvent_def KWriteEvent_def

datatype chan_cb =
    LoopWakeup loop_ptr    \<comment> \<open>\<open>bind(&EventLoop::handleRead, loop)\<close>\<close>
  | AcceptorRead           \<comment> \<open>\<open>bind(&Acceptor::handleRead, acceptor)\<close>\<close>
  | ConnRead conn_ptr      \<comment> \<open>\<open>bind(&TcpConnection::handleRead, conn, _1)\<close>\<close>
  | ConnWrite conn_ptr
  | ConnClose conn_ptr
  | ConnError conn_ptr

record channel =
  ch_loop :: loop_ptr
  ch_fd :: int
  ch_events :: "32 word"
  ch_revents :: "32 word"
  ch_index :: int
  ch_tie :: "conn_ptr option"
  ch_tied :: bool
  ch_ReadCallBack :: "chan_cb option"
  ch_WriteCallBack :: "chan_cb option"
  ch_CloseCallBack :: "chan_cb option"
  ch_ErrorCallBack :: "chan_cb option"

record chan_world = io_state +
  cw_channels :: "chan_ptr \<rightharpoonup> channel"

lemma note_chan_world [simp]:
  "cw_channels (note_event e w) = cw_channels w"
  "chan_world.more (note_event e w) = chan_world.more w"
  "cw_channels (note_log lv m w) = cw_channels w"
  "chan_world.more (note_log lv m w) = chan_world.more w"
  by (simp_all add: note_event_def note_log_def)

definition put_channel :: "chan_ptr \<Rightarrow> channel \<Rightarrow> 'a chan_world_scheme \<Rightarrow> 'a chan_world_scheme" where
  "put_channel c ch w = w\<lparr>cw_channels := (cw_channels w)(c \<mapsto> ch)\<rparr>"

lemma put_channel_simps [simp]:
  "cw_channels (put_channel c ch w) = (cw_channels w)(c \<mapsto> ch)"
  "io_trace (put_channel c ch w) = io_trace w"
  "io_errno (put_channel c ch w) = io_errno w"
  "io_log (put_channel c ch w) = io_log w"
  "io_tid (put_channel c ch w) = io_tid w"
  "chan_world.more (put_channel c ch w) = chan_world.more w"
  by (simp_all add: put_channel_def)

section \<open>Operations\<close>

definition Channel_new :: "loop_ptr \<Rightarrow> int \<Rightarrow> channel" where
  "Channel_new loop f =
     \<lparr>ch_loop = loop, ch_fd = f, ch_events = 0, ch_revents = 0, ch_index = -1,
      ch_tie = None, ch_tied = False, ch_ReadCallBack = None, ch_WriteCallBack = None,
      ch_CloseCallBack = None, ch_ErrorCallBack = None\<rparr>"

definition setReadCallback :: "chan_cb \<Rightarrow> channel \<Rightarrow> channel" where
  "setReadCallback cb ch = ch\<lparr>ch_ReadCallBack := Some cb\<rparr>"

definition setWriteCallback :: "chan_cb \<Rightarrow> channel \<Rightarrow> channel" where
  "setWriteCallback cb ch = ch\<lparr>ch_WriteCallBack := Some cb\<rparr>"

definition setCloseCallback :: "chan_cb \<Rightarrow> channel \<Rightarrow> channel" where
  "setCloseCallback cb ch = ch\<lparr>ch_CloseCallBack := Some cb\<rparr>"

definition setErrorCallback :: "chan_cb \<Rightarrow> channel \<Rightarrow> channel" where
  "setErrorCallback cb ch = ch\<lparr>ch_ErrorCallBack := Some cb\<rparr>"

definition tie :: "conn_ptr \<Rightarrow> channel \<Rightarrow> channel" where
  "tie obj ch = ch\<lparr>ch_tie := Some obj, ch_tied := True\<rparr>"

definition set_revents :: "32 word \<Rightarrow> channel \<Rightarrow> channel" where
  "set_revents revt ch = ch\<lparr>ch_revents := revt\<rparr>"

definition set_index :: "int \<Rightarrow> channel \<Rightarrow> channel" where
  "set_index idx ch = ch\<lparr>ch_index := idx\<rparr>"

text \<open>What the six functions that change the interest store into \<open>events_\<close> before \<open>update()\<close>.\<close>

definition add_read :: "channel \<Rightarrow> channel" where
  "add_read ch = ch\<lparr>ch_events := ch_events ch OR KReadEvent\<rparr>"

definition del_read :: "channel \<Rightarrow> channel" where
  "del_read ch = ch\<lparr>ch_events := ch_events ch AND NOT KReadEvent\<rparr>"

definition add_write :: "channel \<Rightarrow> channel" where
  "add_write ch = ch\<lparr>ch_events := ch_events ch OR KWriteEvent\<rparr>"

definition del_write :: "channel \<Rightarrow> channel" where
  "del_write ch = ch\<lparr>ch_events := ch_events ch AND NOT KWriteEvent\<rparr>"

definition del_all :: "channel \<Rightarrow> channel" where
  "del_all ch = ch\<lparr>ch_events := KNoneEvent\<rparr>"

definition isNoneEvent :: "channel \<Rightarrow> bool" where
  "isNoneEvent ch \<longleftrightarrow> ch_events ch = KNoneEvent"

definition isWriting :: "channel \<Rightarrow> bool" where
  "isWriting ch \<longleftrightarrow> ch_events ch AND KWriteEvent \<noteq> 0"

definition isReading :: "channel \<Rightarrow> bool" where
  "isReading ch \<longleftrightarrow> ch_events ch AND KReadEvent \<noteq> 0"

section \<open>Dispatching the reported events\<close>

text \<open>
  One \<open>if\<close> of \<open>handleEventWithGuard\<close>: the channel is read again each time, since the
  callbacks before may have changed it, and an empty callback is skipped.
\<close>

definition fire ::
    "(chan_cb \<Rightarrow> timestamp \<Rightarrow> 'a chan_world_scheme \<Rightarrow> cpp_error + 'a chan_world_scheme) \<Rightarrow>
     (32 word \<Rightarrow> bool) \<Rightarrow> (channel \<Rightarrow> chan_cb option) \<Rightarrow> chan_ptr \<Rightarrow> timestamp \<Rightarrow>
     'a chan_world_scheme \<Rightarrow> cpp_error + 'a chan_world_scheme" where
  "fire run due callback c t w =
     bindE (derefE (cw_channels w) c) (\<lambda>ch.
       if due (ch_revents ch) then
         (case callback ch of None \<Rightarrow> Inr w | Some cb \<Rightarrow> run cb t w)
       else Inr w)"

definition error_due :: "32 word \<Rightarrow> bool" where
  "error_due r \<longleftrightarrow> r AND EPOLLERR \<noteq> 0"

definition read_due :: "32 word \<Rightarrow> bool" where
  "read_due r \<longleftrightarrow> r AND (EPOLLIN OR EPOLLPRI) \<noteq> 0"

definition write_due :: "32 word \<Rightarrow> bool" where
  "write_due r \<longleftrightarrow> r AND EPOLLOUT \<noteq> 0"

definition close_due :: "32 word \<Rightarrow> bool" where
  "close_due r \<longleftrightarrow> r AND EPOLLHUP \<noteq> 0 \<and> \<not> r AND EPOLLIN \<noteq> 0"

definition handleEventWithGuard ::
    "(chan_cb \<Rightarrow> timestamp \<Rightarrow> 'a chan_world_scheme \<Rightarrow> cpp_error + 'a chan_world_scheme) \<Rightarrow>
     chan_ptr \<Rightarrow> timestamp \<Rightarrow> 'a chan_world_scheme \<Rightarrow> cpp_error + 'a chan_world_scheme" where
  "handleEventWithGuard run c recvTime w =
     bindE (fire run error_due ch_ErrorCallBack c recvTime w) (\<lambda>w.
     bindE (fire run read_due ch_ReadCallBack c recvTime w) (\<lambda>w.
     bindE (fire run write_due ch_WriteCallBack c recvTime w) (\<lambda>w.
     fire run close_due ch_CloseCallBack c recvTime w)))"

definition handleEvent ::
    "('a chan_world_scheme \<Rightarrow> conn_ptr \<Rightarrow> bool) \<Rightarrow>
     (chan_cb \<Rightarrow> timestamp \<Rightarrow> 'a chan_world_scheme \<Rightarrow> cpp_error + 'a chan_world_scheme) \<Rightarrow>
     chan_ptr \<Rightarrow> timestamp \<Rightarrow> 'a chan_world_scheme \<Rightarrow> cpp_error + 'a chan_world_scheme" where
  "handleEvent alive run c recvtime w =
     bindE (derefE (cw_channels w) c) (\<lambda>ch.
       if ch_tied ch then
         (case ch_tie ch of
            Some obj \<Rightarrow> if alive w obj then handleEventWithGuard run c recvtime w else Inr w
          | None \<Rightarrow> Inr w)
       else handleEventWithGuard run c recvtime w)"

section \<open>The interest mask\<close>

lemmas channel_defs = add_read_def del_read_def add_write_def del_write_def del_all_def
  set_index_def set_revents_def tie_def
  setReadCallback_def setWriteCallback_def setCloseCallback_def setErrorCallback_def

text \<open>The mask never holds a bit that is neither a read nor a write event.\<close>

definition events_in_mask :: "channel \<Rightarrow> bool" where
  "events_in_mask ch \<longleftrightarrow> ch_events ch AND NOT (KReadEvent OR KWriteEvent) = 0"

lemma bit_power: "k < 32 \<Longrightarrow> bit ((2 :: 32 word) ^ k) n \<longleftrightarrow> n = k"
  by (auto simp: bit_exp_iff)

lemma bit_events [simp]:
  "bit EPOLLIN n \<longleftrightarrow> n = 0" "bit EPOLLPRI n \<longleftrightarrow> n = 1" "bit EPOLLOUT n \<longleftrightarrow> n = 2"
  "bit EPOLLERR n \<longleftrightarrow> n = 3" "bit EPOLLHUP n \<longleftrightarrow> n = 4"
  using bit_power [of 0 n] bit_power [of 1 n] bit_power [of 2 n] bit_power [of 3 n] bit_power [of 4 n]
  by (simp_all add: EPOLLIN_def EPOLLPRI_def EPOLLOUT_def EPOLLERR_def EPOLLHUP_def)

lemma and_mask_bits:
  fixes x :: "32 word"
  shows "x AND EPOLLIN \<noteq> 0 \<longleftrightarrow> bit x 0" "x AND EPOLLOUT \<noteq> 0 \<longleftrightarrow> bit x 2"
    "x AND EPOLLERR \<noteq> 0 \<longleftrightarrow> bit x 3" "x AND EPOLLHUP \<noteq> 0 \<longleftrightarrow> bit x 4"
    "x AND (EPOLLIN OR EPOLLPRI) \<noteq> 0 \<longleftrightarrow> bit x 0 \<or> bit x 1"
  by (auto simp: word_bits_eq_iff bit_and_iff bit_or_iff intro: exI [of _ 0] exI [of _ 1] exI [of _ 2]
      exI [of _ 3] exI [of _ 4])

text \<open>The questions asked about a mask, as questions about its bits.\<close>

lemma mask_bits:
  "isWriting ch \<longleftrightarrow> bit (ch_events ch) 2"
  "isReading ch \<longleftrightarrow> bit (ch_events ch) 0 \<or> bit (ch_events ch) 1"
  "error_due r \<longleftrightarrow> bit r 3" "read_due r \<longleftrightarrow> bit r 0 \<or> bit r 1" "write_due r \<longleftrightarrow> bit r 2"
  "close_due r \<longleftrightarrow> bit r 4 \<and> \<not> bit r 0"
  by (simp_all only: isWriting_def isReading_def error_due_def read_due_def write_due_def
      close_due_def KReadEvent_def KWriteEvent_def and_mask_bits simp_thms)

lemma isNoneEvent_bits:
  assumes "events_in_mask ch"
  shows "isNoneEvent ch \<longleftrightarrow> \<not> isReading ch \<and> \<not> isWriting ch"
proof
  assume "\<not> isReading ch \<and> \<not> isWriting ch"
  then have no: "\<not> bit (ch_events ch) 0" "\<not> bit (ch_events ch) 1" "\<not> bit (ch_events ch) 2"
    by (simp_all add: mask_bits)
  have "\<not> bit (ch_events ch) n" for n
  proof
    assume b: "bit (ch_events ch) n"
    then have "n < 32" using bit_imp_le_length [of "ch_events ch" n] by simp
    moreover have "n \<noteq> 0" "n \<noteq> 1" "n \<noteq> 2" using b no by metis+
    ultimately have "bit (ch_events ch AND NOT (KReadEvent OR KWriteEvent)) n"
      using b by (simp add: bit_and_iff bit_or_iff bit_not_iff KReadEvent_def KWriteEvent_def)
    with assms show False by (simp add: events_in_mask_def)
  qed
  then show "isNoneEvent ch" by (simp add: isNoneEvent_def KNoneEvent_def word_bits_eq_iff)
qed (simp add: isNoneEvent_def KNoneEvent_def mask_bits)

lemma mask_updates [simp]:
  "isReading (add_read ch)" "isWriting (add_read ch) = isWriting ch"
  "\<not> isReading (del_read ch)" "isWriting (del_read ch) = isWriting ch"
  "isWriting (add_write ch)" "isReading (add_write ch) = isReading ch"
  "\<not> isWriting (del_write ch)" "isReading (del_write ch) = isReading ch"
  "\<not> isReading (del_all ch)" "\<not> isWriting (del_all ch)" "isNoneEvent (del_all ch)"
  by (auto simp: mask_bits channel_defs bit_and_iff bit_or_iff bit_not_iff KReadEvent_def
      KWriteEvent_def KNoneEvent_def isNoneEvent_def)

lemma events_in_mask_updates [simp]:
  "events_in_mask (Channel_new l f)"
  "events_in_mask ch \<Longrightarrow> events_in_mask (add_read ch)"
  "events_in_mask ch \<Longrightarrow> events_in_mask (del_read ch)"
  "events_in_mask ch \<Longrightarrow> events_in_mask (add_write ch)"
  "events_in_mask ch \<Longrightarrow> events_in_mask (del_write ch)"
  "events_in_mask (del_all ch)"
  by (auto simp: events_in_mask_def channel_defs Channel_new_def KNoneEvent_def
      bit_eq_iff bit_and_iff bit_or_iff bit_not_iff)

section \<open>Which callbacks run\<close>

text \<open>The callbacks due for the reported events, in the order of the code.\<close>

definition option_list :: "'x option \<Rightarrow> 'x list" where
  "option_list x = (case x of None \<Rightarrow> [] | Some y \<Rightarrow> [y])"

lemma option_list_simps [simp]: "option_list None = []" "option_list (Some x) = [x]"
  by (simp_all add: option_list_def)

definition due_callbacks :: "channel \<Rightarrow> chan_cb list" where
  "due_callbacks ch =
     (if error_due (ch_revents ch) then option_list (ch_ErrorCallBack ch) else []) @
     (if read_due (ch_revents ch) then option_list (ch_ReadCallBack ch) else []) @
     (if write_due (ch_revents ch) then option_list (ch_WriteCallBack ch) else []) @
     (if close_due (ch_revents ch) then option_list (ch_CloseCallBack ch) else [])"

text \<open>What the dispatcher reads: two channels that agree on it are dispatched alike.\<close>

definition same_dispatch :: "channel \<Rightarrow> channel \<Rightarrow> bool" where
  "same_dispatch ch ch' \<longleftrightarrow>
     ch_revents ch' = ch_revents ch \<and>
     ch_ReadCallBack ch' = ch_ReadCallBack ch \<and> ch_WriteCallBack ch' = ch_WriteCallBack ch \<and>
     ch_CloseCallBack ch' = ch_CloseCallBack ch \<and> ch_ErrorCallBack ch' = ch_ErrorCallBack ch"

lemma same_dispatch_refl [simp]: "same_dispatch ch ch"
  by (simp add: same_dispatch_def)

lemma same_dispatch_trans [trans]:
  "same_dispatch a b \<Longrightarrow> same_dispatch b c \<Longrightarrow> same_dispatch a c"
  by (simp add: same_dispatch_def)

text \<open>
  \<open>keeps_channels w w'\<close>: every channel of \<open>w\<close> is still there and is dispatched as before. This is
  the contract between the dispatcher and the callbacks it calls in turn.
\<close>

definition keeps_channels :: "'a chan_world_scheme \<Rightarrow> 'a chan_world_scheme \<Rightarrow> bool" where
  "keeps_channels w w' \<longleftrightarrow>
     (\<forall>c ch. cw_channels w c = Some ch \<longrightarrow>
       (\<exists>ch'. cw_channels w' c = Some ch' \<and> same_dispatch ch ch'))"

lemma keeps_channels_refl [simp]: "keeps_channels w w"
  by (simp add: keeps_channels_def)

lemma keeps_channels_trans [trans]:
  "keeps_channels u v \<Longrightarrow> keeps_channels v w \<Longrightarrow> keeps_channels u w"
  unfolding keeps_channels_def by (meson same_dispatch_trans)

lemma keeps_channels_eq: "cw_channels w' = cw_channels w \<Longrightarrow> keeps_channels w w'"
  by (simp add: keeps_channels_def)

lemma keeps_channels_put:
  "cw_channels w c = Some ch \<Longrightarrow> same_dispatch ch ch' \<Longrightarrow> keeps_channels w (put_channel c ch' w)"
  by (simp add: keeps_channels_def put_channel_def)

locale callback_runner =
  fixes run :: "chan_cb \<Rightarrow> timestamp \<Rightarrow> 'a chan_world_scheme \<Rightarrow> cpp_error + 'a chan_world_scheme"
    and ok :: "'a chan_world_scheme \<Rightarrow> bool"
  assumes run_keeps: "ok w \<Longrightarrow> run cb t w = Inr w' \<Longrightarrow> keeps_channels w w' \<and> ok w'"
begin

text \<open>One \<open>if\<close> of the dispatcher runs its callback or nothing, as the channel said at the start.\<close>

lemma fire_once:
  assumes "cw_channels w c = Some ch'" and "same_dispatch ch ch'"
    and "\<And>a b. same_dispatch a b \<Longrightarrow> callback b = callback a"
  shows "fire run due callback c t w =
      foldE (\<lambda>cb. run cb t) (if due (ch_revents ch) then option_list (callback ch) else []) w"
proof -
  have "callback ch' = callback ch" using assms(2,3) by blast
  moreover have "ch_revents ch' = ch_revents ch" using assms(2) by (simp add: same_dispatch_def)
  ultimately show ?thesis
    using assms(1) by (cases "callback ch"; cases "run (the (callback ch)) t w") (simp_all add: fire_def)
qed

lemma runs_keep:
  assumes "ok w" and "foldE (\<lambda>cb. run cb t) cbs w = Inr w'"
  shows "keeps_channels w w'"
  using foldE_invariant [OF assms(2), where P = "\<lambda>v. keeps_channels w v \<and> ok v"] assms(1) run_keeps
  by (meson keeps_channels_refl keeps_channels_trans)

lemma handleEventWithGuard_runs_due:
  assumes ok: "ok w" and "cw_channels w c = Some ch"
  shows "handleEventWithGuard run c t w = foldE (\<lambda>cb. run cb t) (due_callbacks ch) w"
proof -
  have still: "\<exists>ch'. cw_channels v c = Some ch' \<and> same_dispatch ch ch'"
    if "foldE (\<lambda>cb. run cb t) cbs w = Inr v" for cbs v
    using runs_keep [OF ok that] assms by (simp add: keeps_channels_def)
  have step: "bindE (foldE (\<lambda>cb. run cb t) cbs w) (\<lambda>v. fire run due callback c t v) =
      foldE (\<lambda>cb. run cb t) (cbs @ (if due (ch_revents ch) then option_list (callback ch) else [])) w"
    if "\<And>a b. same_dispatch a b \<Longrightarrow> callback b = callback a" for cbs due callback
    using still [of cbs] that
    by (cases "foldE (\<lambda>cb. run cb t) cbs w") (auto simp: foldE_append fire_once)
  let ?run = "foldE (\<lambda>cb. run cb t)"
  let ?e = "if error_due (ch_revents ch) then option_list (ch_ErrorCallBack ch) else []"
  let ?r = "if read_due (ch_revents ch) then option_list (ch_ReadCallBack ch) else []"
  let ?w = "if write_due (ch_revents ch) then option_list (ch_WriteCallBack ch) else []"
  let ?k = "if close_due (ch_revents ch) then option_list (ch_CloseCallBack ch) else []"
  have "fire run error_due ch_ErrorCallBack c t w = ?run ?e w"
    by (rule fire_once [OF assms(2) same_dispatch_refl]) (simp add: same_dispatch_def)
  then have "handleEventWithGuard run c t w =
      bindE (bindE (bindE (?run ?e w) (\<lambda>v. fire run read_due ch_ReadCallBack c t v))
        (\<lambda>v. fire run write_due ch_WriteCallBack c t v)) (\<lambda>v. fire run close_due ch_CloseCallBack c t v)"
    by (simp only: handleEventWithGuard_def bindE_assoc)
  also have "bindE (?run ?e w) (\<lambda>v. fire run read_due ch_ReadCallBack c t v) = ?run (?e @ ?r) w"
    by (rule step) (simp add: same_dispatch_def)
  also have "bindE (?run (?e @ ?r) w) (\<lambda>v. fire run write_due ch_WriteCallBack c t v) =
      ?run ((?e @ ?r) @ ?w) w"
    by (rule step) (simp add: same_dispatch_def)
  also have "bindE (?run ((?e @ ?r) @ ?w) w) (\<lambda>v. fire run close_due ch_CloseCallBack c t v) =
      ?run (((?e @ ?r) @ ?w) @ ?k) w"
    by (rule step) (simp add: same_dispatch_def)
  finally show ?thesis by (simp only: due_callbacks_def append_assoc)
qed

end

end
