(* ===== verification/Epoll_Poller.thy ===== *)
theory Epoll_Poller
  imports Channel
begin

text \<open>
  include/poller.hpp, ZPoller/poller.cpp, include/epollpoller.hpp, ZEpollPoller/epollpoller.cpp:
  the map from descriptors to channels, and the \<open>epoll\<close> instance whose interest list it keeps in
  step with the channels' masks. A channel is \<open>KNew\<close> (unknown to the poller), \<open>KAdded\<close> (in map and
  interest list) or \<open>KDeleted\<close> (in the map only).

  Every \<open>epoll_ctl\<close> is an event of the trace. \<open>interest\<close> reads off the trace what is registered,
  by the documented meaning of the three operations (and of \<open>close\<close>, which drops a descriptor
  from the list). \<open>poller_inv\<close> says that map, \<open>index_\<close> and interest list agree; the lemmas show that
  every operation keeps it, and with it that no \<open>epoll_ctl\<close> asks the kernel to add what is there
  or to change or delete what is not.
\<close>

definition KNew :: int where "KNew = -1"
definition KAdded :: int where "KAdded = 1"
definition KDeleted :: int where "KDeleted = 2"

lemmas index_defs = KNew_def KAdded_def KDeleted_def

definition KInitEventListSize :: nat where "KInitEventListSize = 16"

text \<open>\<open>events_\<close> holds pairs of \<open>data.ptr\<close> and \<open>events\<close>.\<close>

record poller =
  ep_epollfd :: int
  ep_events :: "(chan_ptr \<times> 32 word) list"
  ep_channels :: "int \<rightharpoonup> chan_ptr"

section \<open>Operations\<close>

definition hasChannel :: "chan_ptr \<Rightarrow> channel \<Rightarrow> poller \<Rightarrow> bool" where
  "hasChannel c ch p = (ep_channels p (ch_fd ch) = Some c)"

definition EpollPoller_new :: "os \<Rightarrow> 'a io_state_scheme \<Rightarrow> poller \<times> 'a io_state_scheme" where
  "EpollPoller_new os w =
     (let (epollfd, w') = sys_open os EpollCreate w;
          p = \<lparr>ep_epollfd = epollfd, ep_events = replicate KInitEventListSize (0, 0),
               ep_channels = Map.empty\<rparr>
      in (p, if epollfd < 0 then note_log FATAL ''epoll_create error: %d'' w' else w'))"

definition EpollPoller_delete :: "os \<Rightarrow> poller \<Rightarrow> 'a io_state_scheme \<Rightarrow> 'a io_state_scheme" where
  "EpollPoller_delete os p w = snd (sys_call os (CloseFd (ep_epollfd p)) w)"

text \<open>\<open>newDefaultPoller\<close>: a null pointer when the environment variable is set.\<close>

definition newDefaultPoller ::
    "bool \<Rightarrow> os \<Rightarrow> 'a io_state_scheme \<Rightarrow> poller option \<times> 'a io_state_scheme" where
  "newDefaultPoller muduo_use_poll os w =
     (if muduo_use_poll then (None, w)
      else (let (p, w') = EpollPoller_new os w in (Some p, w')))"

text \<open>The private \<open>update\<close>: one \<open>epoll_ctl\<close>, whose failure is only logged.\<close>

definition poller_ctl ::
    "os \<Rightarrow> ctl_op \<Rightarrow> chan_ptr \<Rightarrow> poller \<Rightarrow> 'a chan_world_scheme \<Rightarrow>
     cpp_error + 'a chan_world_scheme" where
  "poller_ctl os operation c p w =
     bindE (derefE (cw_channels w) c) (\<lambda>ch.
       let (r, w') = sys_call os (EpollCtl (ep_epollfd p) operation (ch_fd ch) (ch_events ch) c) w
       in Inr (if r < 0 then
                 (if operation = CTL_DEL then note_log ERROR ''epoll_ctl del error:%d'' w'
                  else note_log FATAL ''epoll_ctl add/mod error:%d'' w')
               else w'))"

definition channel_set_index ::
    "chan_ptr \<Rightarrow> int \<Rightarrow> 'a chan_world_scheme \<Rightarrow> cpp_error + 'a chan_world_scheme" where
  "channel_set_index c idx w =
     bindE (derefE (cw_channels w) c) (\<lambda>ch. Inr (put_channel c (set_index idx ch) w))"

definition poller_updateChannel ::
    "os \<Rightarrow> chan_ptr \<Rightarrow> poller \<Rightarrow> 'a chan_world_scheme \<Rightarrow>
     cpp_error + (poller \<times> 'a chan_world_scheme)" where
  "poller_updateChannel os c p w =
     bindE (derefE (cw_channels w) c) (\<lambda>ch.
       if ch_index ch = KNew \<or> ch_index ch = KDeleted then
         (let p' = (if ch_index ch = KNew
                    then p\<lparr>ep_channels := (ep_channels p)(ch_fd ch \<mapsto> c)\<rparr> else p)
          in bindE (channel_set_index c KAdded w) (\<lambda>w.
             bindE (poller_ctl os CTL_ADD c p' w) (\<lambda>w.
             Inr (p', w))))
       else if isNoneEvent ch then
         bindE (poller_ctl os CTL_DEL c p w) (\<lambda>w.
         bindE (channel_set_index c KDeleted w) (\<lambda>w.
         Inr (p, w)))
       else
         bindE (poller_ctl os CTL_MOD c p w) (\<lambda>w. Inr (p, w)))"

definition poller_removeChannel ::
    "os \<Rightarrow> chan_ptr \<Rightarrow> poller \<Rightarrow> 'a chan_world_scheme \<Rightarrow>
     cpp_error + (poller \<times> 'a chan_world_scheme)" where
  "poller_removeChannel os c p w =
     bindE (derefE (cw_channels w) c) (\<lambda>ch.
       if ep_channels p (ch_fd ch) \<noteq> None then
         (let p' = p\<lparr>ep_channels := (ep_channels p)(ch_fd ch := None)\<rparr>
          in bindE (if ch_index ch = KAdded then poller_ctl os CTL_DEL c p' w else Inr w) (\<lambda>w.
             bindE (channel_set_index c KNew w) (\<lambda>w.
             Inr (p', w))))
       else Inr (p, w))"

text \<open>\<open>fillActiveChannels\<close>: the loop over the first \<open>numEvents\<close> entries of \<open>events_\<close>, and its body.\<close>

fun fill_step ::
    "chan_ptr \<times> 32 word \<Rightarrow> chan_ptr list \<times> 'a chan_world_scheme \<Rightarrow>
     cpp_error + (chan_ptr list \<times> 'a chan_world_scheme)" where
  "fill_step (c, events) (active, w) =
     bindE (derefE (cw_channels w) c) (\<lambda>ch.
       Inr (active @ [c], put_channel c (set_revents events ch) w))"

definition fillActiveChannels ::
    "nat \<Rightarrow> poller \<Rightarrow> chan_ptr list \<Rightarrow> 'a chan_world_scheme \<Rightarrow>
     cpp_error + (chan_ptr list \<times> 'a chan_world_scheme)" where
  "fillActiveChannels numEvents p activeChannels w =
     foldE fill_step (take numEvents (ep_events p)) (activeChannels, w)"

definition poller_poll ::
    "os \<Rightarrow> int \<Rightarrow> poller \<Rightarrow> chan_ptr list \<Rightarrow> 'a chan_world_scheme \<Rightarrow>
     cpp_error + (timestamp \<times> chan_ptr list \<times> poller \<times> 'a chan_world_scheme)" where
  "poller_poll os timeoutMs p activeChannels w =
     (let (numEvent, evs, w1) = sys_wait os (ep_epollfd p) (length (ep_events p)) w;
          p1 = p\<lparr>ep_events := put_block 0 evs (ep_events p)\<rparr>;
          saveErrno = io_errno w1;
          now = TimeStamp_now (os_time os (io_trace w1))
      in if numEvent > 0 then
           bindE (fillActiveChannels (nat numEvent) p1 activeChannels w1) (\<lambda>(active, w2).
             Inr (now, active,
                  (if nat numEvent = length (ep_events p1)
                   then p1\<lparr>ep_events := ep_events p1 @ replicate (length (ep_events p1)) (0, 0)\<rparr>
                   else p1), w2))
         else if numEvent = 0 then Inr (now, activeChannels, p1, w1)
         else if saveErrno \<noteq> EINTR then
           Inr (now, activeChannels, p1,
                note_log ERROR ''EPollPoller::poll() error!'' (w1\<lparr>io_errno := saveErrno\<rparr>))
         else Inr (now, activeChannels, p1, w1))"

section \<open>The interest list\<close>

text \<open>
  What the calls so far have asked the epoll instance \<open>e\<close> to watch: mask and \<open>data.ptr\<close>. The program
  only logs a call that fails, and goes on as if it had been obeyed; the list follows the program.
\<close>

fun interest_step :: "int \<Rightarrow> io_event \<Rightarrow> (int \<rightharpoonup> 32 word \<times> chan_ptr) \<Rightarrow> (int \<rightharpoonup> 32 word \<times> chan_ptr)" where
  "interest_step e (Did (EpollCtl e' CTL_DEL f ev c) r) m = (if e' = e then m(f := None) else m)"
| "interest_step e (Did (EpollCtl e' CTL_ADD f ev c) r) m = (if e' = e then m(f \<mapsto> (ev, c)) else m)"
| "interest_step e (Did (EpollCtl e' CTL_MOD f ev c) r) m = (if e' = e then m(f \<mapsto> (ev, c)) else m)"
| "interest_step e (Did (CloseFd f) r) m = (if f = e then Map.empty else m(f := None))"
| "interest_step e _ m = m"

definition interest :: "int \<Rightarrow> io_event list \<Rightarrow> (int \<rightharpoonup> 32 word \<times> chan_ptr)" where
  "interest e tr = fold (interest_step e) tr Map.empty"

text \<open>A call is legal when it adds an absent descriptor or changes or deletes a present one.\<close>

fun legal_event :: "int \<Rightarrow> (int \<rightharpoonup> 32 word \<times> chan_ptr) \<Rightarrow> io_event \<Rightarrow> bool" where
  "legal_event e m (Did (EpollCtl e' op f ev c) r) =
     (e' = e \<longrightarrow> (if op = CTL_ADD then m f = None else m f \<noteq> None))"
| "legal_event e m _ = True"

fun legal_from :: "int \<Rightarrow> (int \<rightharpoonup> 32 word \<times> chan_ptr) \<Rightarrow> io_event list \<Rightarrow> bool" where
  "legal_from e m [] = True"
| "legal_from e m (ev # tr) = (legal_event e m ev \<and> legal_from e (interest_step e ev m) tr)"

definition legal_trace :: "int \<Rightarrow> io_event list \<Rightarrow> bool" where
  "legal_trace e tr = legal_from e Map.empty tr"

lemma interest_snoc: "interest e (tr @ [ev]) = interest_step e ev (interest e tr)"
  by (simp add: interest_def)

lemma legal_from_append:
  "legal_from e m (xs @ ys) \<longleftrightarrow> legal_from e m xs \<and> legal_from e (fold (interest_step e) xs m) ys"
  by (induction xs arbitrary: m) simp_all

lemma legal_trace_snoc:
  "legal_trace e (tr @ [ev]) \<longleftrightarrow> legal_trace e tr \<and> legal_event e (interest e tr) ev"
  by (simp add: legal_trace_def legal_from_append interest_def)

section \<open>The invariant\<close>

definition poller_inv :: "loop_ptr \<Rightarrow> poller \<Rightarrow> 'a chan_world_scheme \<Rightarrow> bool" where
  "poller_inv l p w \<longleftrightarrow>
     legal_trace (ep_epollfd p) (io_trace w) \<and>
     (\<forall>c ch. cw_channels w c = Some ch \<and> ch_loop ch = l \<longrightarrow>
        ch_index ch \<in> {KNew, KAdded, KDeleted} \<and>
        (ch_index ch \<noteq> KNew \<longrightarrow> ep_channels p (ch_fd ch) = Some c) \<and>
        (ch_index ch = KAdded \<longrightarrow>
           interest (ep_epollfd p) (io_trace w) (ch_fd ch) = Some (ch_events ch, c)) \<and>
        (ch_index ch = KDeleted \<longrightarrow> interest (ep_epollfd p) (io_trace w) (ch_fd ch) = None)) \<and>
     (\<forall>f c. ep_channels p f = Some c \<longrightarrow>
        (\<exists>ch. cw_channels w c = Some ch \<and> ch_loop ch = l \<and> ch_fd ch = f \<and> ch_index ch \<noteq> KNew)) \<and>
     (\<forall>f. interest (ep_epollfd p) (io_trace w) f \<noteq> None \<longrightarrow> ep_channels p f \<noteq> None)"

text \<open>A channel the poller does not know yet needs a descriptor that is not in use.\<close>

definition may_register :: "poller \<Rightarrow> channel \<Rightarrow> bool" where
  "may_register p ch \<longleftrightarrow> (ch_index ch = KNew \<longrightarrow> ep_channels p (ch_fd ch) = None)"

lemma poller_invI:
  assumes "legal_trace (ep_epollfd p) (io_trace w)"
    and "\<And>c ch. cw_channels w c = Some ch \<Longrightarrow> ch_loop ch = l \<Longrightarrow>
        ch_index ch \<in> {KNew, KAdded, KDeleted} \<and>
        (ch_index ch \<noteq> KNew \<longrightarrow> ep_channels p (ch_fd ch) = Some c) \<and>
        (ch_index ch = KAdded \<longrightarrow>
           interest (ep_epollfd p) (io_trace w) (ch_fd ch) = Some (ch_events ch, c)) \<and>
        (ch_index ch = KDeleted \<longrightarrow> interest (ep_epollfd p) (io_trace w) (ch_fd ch) = None)"
    and "\<And>f c. ep_channels p f = Some c \<Longrightarrow>
        \<exists>ch. cw_channels w c = Some ch \<and> ch_loop ch = l \<and> ch_fd ch = f \<and> ch_index ch \<noteq> KNew"
    and "\<And>f. interest (ep_epollfd p) (io_trace w) f \<noteq> None \<Longrightarrow> ep_channels p f \<noteq> None"
  shows "poller_inv l p w"
  using assms unfolding poller_inv_def by blast

lemma poller_inv_legal: "poller_inv l p w \<Longrightarrow> legal_trace (ep_epollfd p) (io_trace w)"
  by (simp add: poller_inv_def)

lemma poller_inv_chan:
  "poller_inv l p w \<Longrightarrow> cw_channels w c = Some ch \<Longrightarrow> ch_loop ch = l \<Longrightarrow>
     ch_index ch \<in> {KNew, KAdded, KDeleted} \<and>
     (ch_index ch \<noteq> KNew \<longrightarrow> ep_channels p (ch_fd ch) = Some c) \<and>
     (ch_index ch = KAdded \<longrightarrow>
        interest (ep_epollfd p) (io_trace w) (ch_fd ch) = Some (ch_events ch, c)) \<and>
     (ch_index ch = KDeleted \<longrightarrow> interest (ep_epollfd p) (io_trace w) (ch_fd ch) = None)"
  by (simp add: poller_inv_def)

lemma poller_inv_map:
  "poller_inv l p w \<Longrightarrow> ep_channels p f = Some c \<Longrightarrow>
     \<exists>ch. cw_channels w c = Some ch \<and> ch_loop ch = l \<and> ch_fd ch = f \<and> ch_index ch \<noteq> KNew"
  by (simp add: poller_inv_def)

lemma poller_inv_interest:
  "poller_inv l p w \<Longrightarrow> interest (ep_epollfd p) (io_trace w) f \<noteq> None \<Longrightarrow> ep_channels p f \<noteq> None"
  by (simp add: poller_inv_def)

lemma poller_ctl_cases:
  assumes "cw_channels w c = Some ch"
  obtains w' r where "poller_ctl os op c p w = Inr w'"
    and "io_trace w' = io_trace w @ [Did (EpollCtl (ep_epollfd p) op (ch_fd ch) (ch_events ch) c) r]"
    and "cw_channels w' = cw_channels w" and "io_tid w' = io_tid w"
    and "chan_world.more w' = chan_world.more w"
proof -
  have "\<exists>w' r. poller_ctl os op c p w = Inr w' \<and>
      io_trace w' = io_trace w @ [Did (EpollCtl (ep_epollfd p) op (ch_fd ch) (ch_events ch) c) r] \<and>
      cw_channels w' = cw_channels w \<and> io_tid w' = io_tid w \<and>
      chan_world.more w' = chan_world.more w"
    using assms
    by (cases rule: sys_call_cases [of os "EpollCtl (ep_epollfd p) op (ch_fd ch) (ch_events ch) c" w])
      (simp_all add: poller_ctl_def)
  then show ?thesis using that by blast
qed

text \<open>The index after \<open>updateChannel\<close>, and the one operation it asks for.\<close>

definition updated_index :: "channel \<Rightarrow> int" where
  "updated_index ch = (if ch_index ch = KAdded \<and> isNoneEvent ch then KDeleted else KAdded)"

definition update_request :: "channel \<Rightarrow> ctl_op" where
  "update_request ch =
     (if ch_index ch \<noteq> KAdded then CTL_ADD else if isNoneEvent ch then CTL_DEL else CTL_MOD)"

lemma poller_updateChannel_result:
  assumes c: "cw_channels w c = Some ch" and idx: "ch_index ch \<in> {KNew, KAdded, KDeleted}"
  obtains p' w' r where "poller_updateChannel os c p w = Inr (p', w')"
    and "p' = (if ch_index ch = KNew then p\<lparr>ep_channels := (ep_channels p)(ch_fd ch \<mapsto> c)\<rparr> else p)"
    and "cw_channels w' = (cw_channels w)(c \<mapsto> set_index (updated_index ch) ch)"
    and "io_trace w' = io_trace w @
          [Did (EpollCtl (ep_epollfd p) (update_request ch) (ch_fd ch) (ch_events ch) c) r]"
    and "io_tid w' = io_tid w" and "chan_world.more w' = chan_world.more w"
proof (cases "ch_index ch = KAdded")
  case False
  let ?p = "if ch_index ch = KNew then p\<lparr>ep_channels := (ep_channels p)(ch_fd ch \<mapsto> c)\<rparr> else p"
  let ?w = "put_channel c (set_index KAdded ch) w"
  have "cw_channels ?w c = Some (set_index KAdded ch)" by (simp add: put_channel_def)
  then obtain w' r where w': "poller_ctl os CTL_ADD c ?p ?w = Inr w'"
      "io_trace w' = io_trace ?w @ [Did (EpollCtl (ep_epollfd ?p) CTL_ADD
         (ch_fd (set_index KAdded ch)) (ch_events (set_index KAdded ch)) c) r]"
      "cw_channels w' = cw_channels ?w" "io_tid w' = io_tid ?w"
      "chan_world.more w' = chan_world.more ?w"
    by (rule poller_ctl_cases)
  show ?thesis
  proof (rule that [of ?p w' r])
    show "poller_updateChannel os c p w = Inr (?p, w')"
      using c idx False w'(1)
      by (auto simp: poller_updateChannel_def channel_set_index_def Let_def)
  qed (use w' False in \<open>auto simp: put_channel_def set_index_def updated_index_def update_request_def\<close>)
next
  case True
  let ?op = "if isNoneEvent ch then CTL_DEL else CTL_MOD"
  obtain w' r where w': "poller_ctl os ?op c p w = Inr w'"
      "io_trace w' = io_trace w @ [Did (EpollCtl (ep_epollfd p) ?op (ch_fd ch) (ch_events ch) c) r]"
      "cw_channels w' = cw_channels w" "io_tid w' = io_tid w"
      "chan_world.more w' = chan_world.more w"
    using c by (rule poller_ctl_cases)
  show ?thesis
  proof (cases "isNoneEvent ch")
    case none: True
    show ?thesis
      by (rule that [of p "put_channel c (set_index KDeleted ch) w'" r])
        (use w' c True none in \<open>auto simp: poller_updateChannel_def channel_set_index_def
          put_channel_def updated_index_def update_request_def index_defs\<close>)
  next
    case some: False
    have "set_index KAdded ch = ch" using True by (simp add: set_index_def)
    then show ?thesis
      by (intro that [of p w' r])
        (use w' c True some in \<open>auto simp: poller_updateChannel_def updated_index_def
          update_request_def index_defs\<close>)
  qed
qed

lemma poller_updateChannel_inv:
  assumes inv: "poller_inv l p w" and c: "cw_channels w c = Some ch" and l: "ch_loop ch = l"
    and reg: "may_register p ch"
    and upd: "poller_updateChannel os c p (put_channel c (ch\<lparr>ch_events := ev\<rparr>) w) = Inr (p', w')"
  shows "poller_inv l p' w'"
proof -
  let ?ch = "ch\<lparr>ch_events := ev\<rparr>"
  have idx: "ch_index ch \<in> {KNew, KAdded, KDeleted}"
    using inv c l by (simp add: poller_inv_def)
  have c': "cw_channels (put_channel c ?ch w) c = Some ?ch" by (simp add: put_channel_def)
  have idx': "ch_index ?ch \<in> {KNew, KAdded, KDeleted}" using idx by simp
  from poller_updateChannel_result [OF c' idx', of os p] upd obtain r
    where p': "p' = (if ch_index ch = KNew then p\<lparr>ep_channels := (ep_channels p)(ch_fd ch \<mapsto> c)\<rparr> else p)"
      and w': "cw_channels w' = (cw_channels w)(c \<mapsto> set_index (updated_index ?ch) ?ch)"
      and tr: "io_trace w' = io_trace w @
          [Did (EpollCtl (ep_epollfd p) (update_request ?ch) (ch_fd ch) ev c) r]"
    by (fastforce simp: put_channel_def)
  have fd: "ep_epollfd p' = ep_epollfd p" by (simp add: p')
  note ch = poller_inv_chan [OF inv c l]
  note facts = poller_inv_legal [OF inv] poller_inv_map [OF inv] poller_inv_interest [OF inv] ch reg
  note step = update_request_def updated_index_def set_index_def may_register_def index_defs
  have off: "interest (ep_epollfd p) (io_trace w) (ch_fd ch) = None" if "ch_index ch \<noteq> KAdded"
  proof (cases "ch_index ch = KNew")
    case True
    with reg have "ep_channels p (ch_fd ch) = None" by (simp add: may_register_def)
    then show ?thesis using poller_inv_interest [OF inv, of "ch_fd ch"] by blast
  next
    case False
    with that ch show ?thesis by auto
  qed
  show ?thesis
  proof (rule poller_invI)
    show "legal_trace (ep_epollfd p') (io_trace w')"
      using poller_inv_legal [OF inv] off ch unfolding fd tr legal_trace_snoc by (auto simp: step)
    show "\<exists>dh. cw_channels w' d = Some dh \<and> ch_loop dh = l \<and> ch_fd dh = f \<and> ch_index dh \<noteq> KNew"
      if "ep_channels p' f = Some d" for f d
    proof (cases "f = ch_fd ch")
      case True
      then have "d = c" using that ch by (auto simp: p' split: if_splits)
      with True l show ?thesis unfolding w' by (simp add: step)
    next
      case False
      then have "ep_channels p f = Some d" using that by (auto simp: p' split: if_splits)
      with False poller_inv_map [OF inv this] c show ?thesis unfolding w' by auto
    qed
    show "interest (ep_epollfd p') (io_trace w') f \<noteq> None \<Longrightarrow> ep_channels p' f \<noteq> None" for f
      using facts unfolding fd tr interest_snoc p' by (auto simp: step split: if_splits)
    fix d dh
    assume d: "cw_channels w' d = Some dh" and dl: "ch_loop dh = l"
    show "ch_index dh \<in> {KNew, KAdded, KDeleted} \<and>
        (ch_index dh \<noteq> KNew \<longrightarrow> ep_channels p' (ch_fd dh) = Some d) \<and>
        (ch_index dh = KAdded \<longrightarrow> interest (ep_epollfd p') (io_trace w') (ch_fd dh) = Some (ch_events dh, d)) \<and>
        (ch_index dh = KDeleted \<longrightarrow> interest (ep_epollfd p') (io_trace w') (ch_fd dh) = None)"
    proof (cases "d = c")
      case True
      then have dh: "dh = set_index (updated_index ?ch) ?ch" using d by (simp add: w')
      show ?thesis
      proof (cases "ch_index ch = KAdded \<and> isNoneEvent ?ch")
        case True
        then show ?thesis
          using \<open>d = c\<close> ch unfolding fd tr interest_snoc p' dh by (simp add: step)
      next
        case False
        then have "update_request ?ch \<noteq> CTL_DEL" and "updated_index ?ch = KAdded"
          by (auto simp: update_request_def updated_index_def)
        moreover have "ch_index ch = KNew \<or> ep_channels p (ch_fd ch) = Some c" using ch by blast
        ultimately show ?thesis
          using \<open>d = c\<close> unfolding fd tr interest_snoc p' dh
          by (cases "update_request ?ch") (auto simp: set_index_def index_defs)
      qed
    next
      case False
      then have dw: "cw_channels w d = Some dh" using d by (simp add: w')
      note dh = poller_inv_chan [OF inv dw dl]
      have "ch_index dh \<noteq> KNew \<Longrightarrow> ch_fd dh \<noteq> ch_fd ch"
        using dh ch reg False by (auto simp: may_register_def)
      then show ?thesis
        using dh unfolding fd tr interest_snoc p' by (auto simp: step split: if_splits)
    qed
  qed
qed

text \<open>
  \<open>removeChannel\<close> looks the descriptor up and does not compare the channel it finds; \<open>own\<close> says
  that the descriptor is not registered by another channel.
\<close>

definition own_entry :: "poller \<Rightarrow> chan_ptr \<Rightarrow> channel \<Rightarrow> bool" where
  "own_entry p c ch \<longleftrightarrow> ep_channels p (ch_fd ch) \<in> {None, Some c}"

lemma poller_removeChannel_run:
  assumes inv: "poller_inv l p w" and c: "cw_channels w c = Some ch" and l: "ch_loop ch = l"
    and own: "own_entry p c ch"
  obtains w' where
    "poller_removeChannel os c p w = Inr (p\<lparr>ep_channels := (ep_channels p)(ch_fd ch := None)\<rparr>, w')"
    and "cw_channels w' = (cw_channels w)(c \<mapsto> set_index KNew ch)"
    and "io_trace w' = io_trace w \<and> ch_index ch \<noteq> KAdded \<or>
      (\<exists>r. io_trace w' = io_trace w @ [Did (EpollCtl (ep_epollfd p) CTL_DEL (ch_fd ch) (ch_events ch) c) r])
        \<and> ch_index ch = KAdded"
    and "io_tid w' = io_tid w" and "chan_world.more w' = chan_world.more w"
proof (cases "ep_channels p (ch_fd ch)")
  case None
  then have new: "ch_index ch = KNew" using poller_inv_chan [OF inv c l] by auto
  have "p\<lparr>ep_channels := (ep_channels p)(ch_fd ch := None)\<rparr> = p" using None by (simp add: fun_upd_idem)
  moreover have "set_index KNew ch = ch" using new by (simp add: set_index_def)
  ultimately show ?thesis
    using None c new by (intro that [of w])
      (auto simp: poller_removeChannel_def index_defs fun_upd_idem)
next
  case (Some d)
  with own have some: "ep_channels p (ch_fd ch) = Some c" by (auto simp: own_entry_def)
  let ?p = "p\<lparr>ep_channels := (ep_channels p)(ch_fd ch := None)\<rparr>"
  show ?thesis
  proof (cases "ch_index ch = KAdded")
    case True
    obtain v r where v: "poller_ctl os CTL_DEL c ?p w = Inr v"
        "io_trace v = io_trace w @ [Did (EpollCtl (ep_epollfd ?p) CTL_DEL (ch_fd ch) (ch_events ch) c) r]"
        "cw_channels v = cw_channels w" "io_tid v = io_tid w" "chan_world.more v = chan_world.more w"
      using c by (rule poller_ctl_cases)
    show ?thesis
      by (rule that [of "put_channel c (set_index KNew ch) v"])
        (use v c some True in \<open>auto simp: poller_removeChannel_def channel_set_index_def\<close>)
  next
    case False
    show ?thesis
      by (rule that [of "put_channel c (set_index KNew ch) w"])
        (use c some False in \<open>auto simp: poller_removeChannel_def channel_set_index_def\<close>)
  qed
qed

lemma poller_removeChannel_inv:
  assumes inv: "poller_inv l p w" and c: "cw_channels w c = Some ch" and l: "ch_loop ch = l"
    and own: "own_entry p c ch" and run: "poller_removeChannel os c p w = Inr (p', w')"
  shows "poller_inv l p' w'"
    and "interest (ep_epollfd p) (io_trace w') (ch_fd ch) = None"
proof -
  note ch = poller_inv_chan [OF inv c l]
  from poller_removeChannel_run [OF inv c l own, of os] run
  have p': "p' = p\<lparr>ep_channels := (ep_channels p)(ch_fd ch := None)\<rparr>"
    and w': "cw_channels w' = (cw_channels w)(c \<mapsto> set_index KNew ch)"
    and tr: "io_trace w' = io_trace w \<and> ch_index ch \<noteq> KAdded \<or>
      (\<exists>r. io_trace w' = io_trace w @ [Did (EpollCtl (ep_epollfd p) CTL_DEL (ch_fd ch) (ch_events ch) c) r])
        \<and> ch_index ch = KAdded"
    by (metis Inr_inject prod.inject)+
  have fd: "ep_epollfd p' = ep_epollfd p" by (simp add: p')
  have off: "interest (ep_epollfd p) (io_trace w) (ch_fd ch) = None" if "ch_index ch \<noteq> KAdded"
  proof (cases "ch_index ch = KNew")
    case True
    then have "ep_channels p (ch_fd ch) = None"
      using own poller_inv_map [OF inv, of "ch_fd ch" c] c by (auto simp: own_entry_def)
    then show ?thesis using poller_inv_interest [OF inv, of "ch_fd ch"] by blast
  next
    case False
    with that ch show ?thesis by auto
  qed
  have int: "interest (ep_epollfd p) (io_trace w') =
      (interest (ep_epollfd p) (io_trace w))(ch_fd ch := None)"
    using tr off by (auto simp: interest_snoc fun_upd_idem)
  then show "interest (ep_epollfd p) (io_trace w') (ch_fd ch) = None" by simp
  show "poller_inv l p' w'"
  proof (rule poller_invI)
    show "legal_trace (ep_epollfd p') (io_trace w')"
      using tr poller_inv_legal [OF inv] ch unfolding fd by (auto simp: legal_trace_snoc)
    show "\<exists>dh. cw_channels w' d = Some dh \<and> ch_loop dh = l \<and> ch_fd dh = f \<and> ch_index dh \<noteq> KNew"
      if "ep_channels p' f = Some d" for f d
    proof -
      have "f \<noteq> ch_fd ch" and "ep_channels p f = Some d" using that by (auto simp: p' split: if_splits)
      with poller_inv_map [OF inv this(2)] c show ?thesis unfolding w' by auto
    qed
    show "interest (ep_epollfd p') (io_trace w') f \<noteq> None \<Longrightarrow> ep_channels p' f \<noteq> None" for f
      using poller_inv_interest [OF inv, of f] by (auto simp: p' int split: if_splits)
    fix d dh
    assume d: "cw_channels w' d = Some dh" and dl: "ch_loop dh = l"
    show "ch_index dh \<in> {KNew, KAdded, KDeleted} \<and>
        (ch_index dh \<noteq> KNew \<longrightarrow> ep_channels p' (ch_fd dh) = Some d) \<and>
        (ch_index dh = KAdded \<longrightarrow> interest (ep_epollfd p') (io_trace w') (ch_fd dh) = Some (ch_events dh, d)) \<and>
        (ch_index dh = KDeleted \<longrightarrow> interest (ep_epollfd p') (io_trace w') (ch_fd dh) = None)"
    proof (cases "d = c")
      case True
      then show ?thesis using d unfolding w' by (auto simp: set_index_def index_defs)
    next
      case False
      then have dw: "cw_channels w d = Some dh" using d by (simp add: w')
      note dh = poller_inv_chan [OF inv dw dl]
      have "ch_index dh \<noteq> KNew \<Longrightarrow> ch_fd dh \<noteq> ch_fd ch"
        using dh own False by (auto simp: own_entry_def)
      then show ?thesis using dh by (auto simp: p' int index_defs)
    qed
  qed
qed

section \<open>Polling\<close>

text \<open>
  What \<open>epoll_wait\<close> is documented to report: entries of the interest list, with the \<open>data.ptr\<close> they
  were registered with.
\<close>

definition reports_registered :: "os \<Rightarrow> bool" where
  "reports_registered os \<longleftrightarrow>
     (\<forall>h e n evs. os_wait os h e n = Inr evs \<longrightarrow>
        (\<forall>(c, ev) \<in> set evs. \<exists>f m. interest e h f = Some (m, c)))"

lemma registered_channel:
  assumes inv: "poller_inv l p w" and reg: "interest (ep_epollfd p) (io_trace w) f = Some (m, c)"
  shows "\<exists>ch. cw_channels w c = Some ch \<and> ch_loop ch = l \<and> ch_fd ch = f \<and> ch_index ch = KAdded \<and>
      ch_events ch = m"
proof -
  obtain d where d: "ep_channels p f = Some d"
    using poller_inv_interest [OF inv, of f] reg by auto
  then obtain dh where dh: "cw_channels w d = Some dh" "ch_loop dh = l" "ch_fd dh = f" "ch_index dh \<noteq> KNew"
    using poller_inv_map [OF inv] by blast
  then show ?thesis using poller_inv_chan [OF inv dh(1,2)] reg by auto
qed

text \<open>The invariant does not look at \<open>revents_\<close>, \<open>errno\<close>, the log or the array of events.\<close>

definition same_but_revents :: "(chan_ptr \<rightharpoonup> channel) \<Rightarrow> (chan_ptr \<rightharpoonup> channel) \<Rightarrow> bool" where
  "same_but_revents cs cs' \<longleftrightarrow>
     (\<forall>c. map_option (set_revents 0) (cs' c) = map_option (set_revents 0) (cs c))"

lemma same_but_revents_refl [simp]: "same_but_revents cs cs"
  by (simp add: same_but_revents_def)

lemma same_but_revents_trans:
  "same_but_revents a b \<Longrightarrow> same_but_revents b c \<Longrightarrow> same_but_revents a c"
  by (simp add: same_but_revents_def)

lemma same_but_revents_sym: "same_but_revents a b \<Longrightarrow> same_but_revents b a"
  by (simp add: same_but_revents_def)

lemma same_but_revents_Some:
  assumes "same_but_revents cs cs'" and "cs c = Some ch"
  obtains ch' where "cs' c = Some ch'" and "ch_loop ch' = ch_loop ch" and "ch_fd ch' = ch_fd ch"
    and "ch_events ch' = ch_events ch" and "ch_index ch' = ch_index ch"
proof -
  have "map_option (set_revents 0) (cs' c) = Some (set_revents 0 ch)"
    using assms by (simp add: same_but_revents_def)
  then obtain ch' where "cs' c = Some ch'" and "set_revents 0 ch' = set_revents 0 ch" by auto
  then show ?thesis by (intro that [of ch']) (cases ch, cases ch', simp add: set_revents_def)+
qed

lemma poller_inv_same:
  assumes inv: "poller_inv l p w" and p: "ep_epollfd p' = ep_epollfd p" "ep_channels p' = ep_channels p"
    and tr: "io_trace w' = io_trace w" and cs: "same_but_revents (cw_channels w) (cw_channels w')"
  shows "poller_inv l p' w'"
proof (rule poller_invI)
  show "legal_trace (ep_epollfd p') (io_trace w')"
    using poller_inv_legal [OF inv] by (simp add: p tr)
  show "\<exists>ch. cw_channels w' c = Some ch \<and> ch_loop ch = l \<and> ch_fd ch = f \<and> ch_index ch \<noteq> KNew"
    if "ep_channels p' f = Some c" for f c
    using poller_inv_map [OF inv, of f c] that p(2) cs by (metis same_but_revents_Some)
  show "interest (ep_epollfd p') (io_trace w') f \<noteq> None \<Longrightarrow> ep_channels p' f \<noteq> None" for f
    using poller_inv_interest [OF inv, of f] by (simp add: p tr)
  fix c ch'
  assume c: "cw_channels w' c = Some ch'" and l: "ch_loop ch' = l"
  obtain ch where ch: "cw_channels w c = Some ch" "ch_loop ch = ch_loop ch'" "ch_fd ch = ch_fd ch'"
      "ch_events ch = ch_events ch'" "ch_index ch = ch_index ch'"
    using same_but_revents_Some [OF same_but_revents_sym [OF cs] c] by metis
  show "ch_index ch' \<in> {KNew, KAdded, KDeleted} \<and>
      (ch_index ch' \<noteq> KNew \<longrightarrow> ep_channels p' (ch_fd ch') = Some c) \<and>
      (ch_index ch' = KAdded \<longrightarrow>
         interest (ep_epollfd p') (io_trace w') (ch_fd ch') = Some (ch_events ch', c)) \<and>
      (ch_index ch' = KDeleted \<longrightarrow> interest (ep_epollfd p') (io_trace w') (ch_fd ch') = None)"
    using poller_inv_chan [OF inv ch(1)] ch l by (simp add: p tr)
qed

text \<open>\<open>fillActiveChannels\<close> passes the events on in the kernel's order.\<close>

lemma fill_loop:
  assumes "\<forall>(c, ev) \<in> set evs. c \<in> dom (cw_channels w)"
  shows "\<exists>w'. foldE fill_step evs (active, w) = Inr (active @ map fst evs, w') \<and>
      same_but_revents (cw_channels w) (cw_channels w') \<and> io_trace w' = io_trace w \<and>
      io_tid w' = io_tid w \<and> chan_world.more w' = chan_world.more w"
  using assms
proof (induction evs arbitrary: active w)
  case Nil
  then show ?case by simp
next
  case (Cons cev evs)
  obtain c ev where cev: "cev = (c, ev)" by (cases cev)
  with Cons.prems obtain ch where ch: "cw_channels w c = Some ch" by auto
  let ?w = "put_channel c (set_revents ev ch) w"
  have same: "same_but_revents (cw_channels w) (cw_channels ?w)"
    using ch by (simp add: same_but_revents_def set_revents_def)
  have "\<forall>(c, ev) \<in> set evs. c \<in> dom (cw_channels ?w)"
    using Cons.prems by auto
  from Cons.IH [OF this, of "active @ [c]"] obtain w' where
      "foldE fill_step evs (active @ [c], ?w) = Inr ((active @ [c]) @ map fst evs, w')"
      "same_but_revents (cw_channels ?w) (cw_channels w')" "io_trace w' = io_trace ?w"
      "io_tid w' = io_tid ?w" "chan_world.more w' = chan_world.more ?w"
    by blast
  with same_but_revents_trans [OF same this(2)] ch show ?case
    by (intro exI [of _ w']) (simp add: cev)
qed

lemma poller_poll_result:
  assumes inv: "poller_inv l p w" and os: "reports_registered os"
  obtains now and evs :: "(chan_ptr \<times> 32 word) list" and p' w' where
    "poller_poll os timeout p active w = Inr (now, active @ map fst evs, p', w')"
    and "poller_inv l p' w'" and "ep_epollfd p' = ep_epollfd p" and "ep_channels p' = ep_channels p"
    and "same_but_revents (cw_channels w) (cw_channels w')"
    and "\<forall>(c, ev) \<in> set evs. \<exists>ch. cw_channels w c = Some ch \<and> ch_loop ch = l \<and> ch_index ch = KAdded"
    and "length evs \<le> length (ep_events p)"
    and "length (ep_events p') = (if evs \<noteq> [] \<and> length evs = length (ep_events p)
           then 2 * length (ep_events p) else length (ep_events p))"
    and "io_trace w' = io_trace w" and "io_tid w' = io_tid w"
    and "chan_world.more w' = chan_world.more w"
proof (cases "os_wait os (io_trace w) (ep_epollfd p) (length (ep_events p))")
  case (Inl e)
  let ?w = "w\<lparr>io_errno := e\<rparr>"
  show ?thesis
    using Inl inv
    by (intro that [of "TimeStamp_now (os_time os (io_trace w))" "[]" p
          "if e \<noteq> EINTR then note_log ERROR ''EPollPoller::poll() error!'' ?w else ?w"])
      (auto simp: poller_poll_def sys_wait_def intro: poller_inv_same)
next
  case (Inr evs0)
  define evs where "evs = take (length (ep_events p)) evs0"
  let ?p1 = "p\<lparr>ep_events := put_block 0 evs (ep_events p)\<rparr>"
  have le: "length evs \<le> length (ep_events p)" by (simp add: evs_def)
  have valid: "\<forall>(c, ev) \<in> set evs. \<exists>ch. cw_channels w c = Some ch \<and> ch_loop ch = l \<and> ch_index ch = KAdded"
  proof clarify
    fix c ev assume "(c, ev) \<in> set evs"
    then have "(c, ev) \<in> set evs0" by (auto simp: evs_def dest: in_set_takeD)
    then obtain f m where "interest (ep_epollfd p) (io_trace w) f = Some (m, c)"
      using os Inr unfolding reports_registered_def by blast
    from registered_channel [OF inv this]
    show "\<exists>ch. cw_channels w c = Some ch \<and> ch_loop ch = l \<and> ch_index ch = KAdded" by blast
  qed
  have tk: "take (length evs) (ep_events ?p1) = evs" by (simp add: put_block_def)
  have len: "length (ep_events ?p1) = length (ep_events p)" using le by simp
  have dom: "\<forall>(c, ev) \<in> set evs. c \<in> dom (cw_channels w)" using valid by auto
  from fill_loop [OF dom, of active] obtain w' where w':
      "fillActiveChannels (length evs) ?p1 active w = Inr (active @ map fst evs, w')"
      "same_but_revents (cw_channels w) (cw_channels w')" "io_trace w' = io_trace w"
      "io_tid w' = io_tid w" "chan_world.more w' = chan_world.more w"
    unfolding fillActiveChannels_def tk by blast
  let ?now = "TimeStamp_now (os_time os (io_trace w))"
  let ?p' = "if length evs = length (ep_events p)
      then ?p1\<lparr>ep_events := ep_events ?p1 @ replicate (length (ep_events p)) (0, 0)\<rparr> else ?p1"
  have sw: "sys_wait os (ep_epollfd p) (length (ep_events p)) w = (int (length evs), evs, w)"
    using Inr by (simp add: sys_wait_def evs_def Let_def)
  show ?thesis
  proof (cases "evs = []")
    case True
    then show ?thesis
      using sw inv by (intro that [of ?now "[]" p w]) (auto simp: poller_poll_def)
  next
    case False
    then show ?thesis
      using sw inv w' valid le len
      by (intro that [of ?now evs ?p' w'])
        (auto simp: poller_poll_def intro: poller_inv_same [OF inv _ _ w'(3,2)])
  qed
qed

end
