(* ===== verification/Event_Loop.thy ===== *)
theory Event_Loop
  imports Epoll_Poller
begin

text \<open>
  include/event_loop.hpp, ZEventLoop/event_loop.cpp and ZCurrentThread/current_thread.cpp, with
  the functions of ZChannel/channel.cpp that go through the loop. Loops live in a store addressed
  by \<open>loop_ptr\<close>; the thread that executes a function is \<open>io_tid\<close>. A queued
  \<open>std::function<void()>\<close> is named by a constructor of \<open>task\<close>; running one is the parameter
  \<open>exec\<close>. Objects are allocated at the address \<open>lw_next\<close>.

  The functions here are those of one thread at a time; the interleaving of several threads on
  the queue and the eventfd is in the theory of the wakeup protocol.
\<close>

section \<open>The cached thread id\<close>

text \<open>\<open>cacheTid\<close> and \<open>tid\<close>: \<open>gettid\<close> is what the system call returns, \<open>cache\<close> the thread-local.\<close>

definition cacheTid :: "int \<Rightarrow> int \<Rightarrow> int" where
  "cacheTid gettid cache = (if cache = 0 then gettid else cache)"

definition current_tid :: "int \<Rightarrow> int \<Rightarrow> int \<times> int" where
  "current_tid gettid cache =
     (let cache' = (if cache = 0 then cacheTid gettid cache else cache) in (cache', cache'))"

text \<open>Every call in a thread returns the thread's id, so a loop may compare ids by it.\<close>

lemma current_tid_gettid:
  "cache \<in> {0, gettid} \<Longrightarrow> current_tid gettid cache = (gettid, gettid)"
  by (auto simp: current_tid_def cacheTid_def)

section \<open>State\<close>

text \<open>
  What is put into the queues of the loops; a \<open>std::function\<close> of a connection is a \<open>conn_fn\<close>. \<open>SendInLoop\<close> and \<open>ShutdownInLoop\<close> are bound to a raw
  \<open>this\<close>, the tasks of the server to a \<open>shared_ptr\<close>; \<open>SendInLoop\<close> carries the address of the
  caller's string.
\<close>

datatype conn_fn =
    ServerRemoveConnection   \<comment> \<open>\<open>bind(&TcpServer::removeConnection, server, _1)\<close>\<close>
  | UserFn nat               \<comment> \<open>a function of the program that uses the library\<close>

datatype task =
    SendInLoop conn_ptr str_ptr size_t
  | ShutdownInLoop conn_ptr
  | WriteComplete conn_fn conn_ptr
  | HighWaterMark conn_fn conn_ptr size_t
  | ConnectEstablished conn_ptr
  | ConnectDestroyed conn_ptr
  | AcceptorListen
  | RemoveConnectionInPool conn_ptr
  | UserTask nat

record event_loop =
  el_looping :: bool
  el_quit :: bool
  el_threadId :: int
  el_pollReturnTime :: timestamp
  el_poller :: "poller option"
  el_wakeupFd :: int
  el_wakeupChannel :: chan_ptr
  el_activeChannels :: "chan_ptr list"
  el_callingPendingFunctors :: bool
  el_pendingFunctors :: "task list"

record loop_world = chan_world +
  lw_loops :: "loop_ptr \<rightharpoonup> event_loop"
  lw_loopInThisThread :: "int \<rightharpoonup> loop_ptr"
  lw_next :: nat
  lw_numCreated :: int

definition put_loop :: "loop_ptr \<Rightarrow> event_loop \<Rightarrow> 'a loop_world_scheme \<Rightarrow> 'a loop_world_scheme" where
  "put_loop l lp w = w\<lparr>lw_loops := (lw_loops w)(l \<mapsto> lp)\<rparr>"

definition KPollTimeMs :: int where "KPollTimeMs = 10000"

section \<open>Registering channels\<close>

definition loop_updateChannel ::
    "os \<Rightarrow> loop_ptr \<Rightarrow> chan_ptr \<Rightarrow> 'a loop_world_scheme \<Rightarrow> cpp_error + 'a loop_world_scheme" where
  "loop_updateChannel os l c w =
     bindE (derefE (lw_loops w) l) (\<lambda>lp.
       case el_poller lp of
         None \<Rightarrow> Inl NullDereference
       | Some p \<Rightarrow>
           bindE (poller_updateChannel os c p w) (\<lambda>(p', w').
             Inr (put_loop l (lp\<lparr>el_poller := Some p'\<rparr>) w')))"

definition loop_removeChannel ::
    "os \<Rightarrow> loop_ptr \<Rightarrow> chan_ptr \<Rightarrow> 'a loop_world_scheme \<Rightarrow> cpp_error + 'a loop_world_scheme" where
  "loop_removeChannel os l c w =
     bindE (derefE (lw_loops w) l) (\<lambda>lp.
       case el_poller lp of
         None \<Rightarrow> Inl NullDereference
       | Some p \<Rightarrow>
           bindE (poller_removeChannel os c p w) (\<lambda>(p', w').
             Inr (put_loop l (lp\<lparr>el_poller := Some p'\<rparr>) w')))"

text \<open>\<open>update()\<close> of a channel, after its mask was changed by \<open>change\<close>.\<close>

definition change_events ::
    "(channel \<Rightarrow> channel) \<Rightarrow> os \<Rightarrow> chan_ptr \<Rightarrow> 'a loop_world_scheme \<Rightarrow>
     cpp_error + 'a loop_world_scheme" where
  "change_events change os c w =
     bindE (derefE (cw_channels w) c) (\<lambda>ch.
       loop_updateChannel os (ch_loop ch) c (put_channel c (change ch) w))"

definition enableReading ::
    "os \<Rightarrow> chan_ptr \<Rightarrow> 'a loop_world_scheme \<Rightarrow> cpp_error + 'a loop_world_scheme" where
  "enableReading os c w = change_events add_read os c w"

definition disableReading ::
    "os \<Rightarrow> chan_ptr \<Rightarrow> 'a loop_world_scheme \<Rightarrow> cpp_error + 'a loop_world_scheme" where
  "disableReading os c w = change_events del_read os c w"

definition enableWriting ::
    "os \<Rightarrow> chan_ptr \<Rightarrow> 'a loop_world_scheme \<Rightarrow> cpp_error + 'a loop_world_scheme" where
  "enableWriting os c w = change_events add_write os c w"

definition disableWriting ::
    "os \<Rightarrow> chan_ptr \<Rightarrow> 'a loop_world_scheme \<Rightarrow> cpp_error + 'a loop_world_scheme" where
  "disableWriting os c w = change_events del_write os c w"

definition disableAll ::
    "os \<Rightarrow> chan_ptr \<Rightarrow> 'a loop_world_scheme \<Rightarrow> cpp_error + 'a loop_world_scheme" where
  "disableAll os c w = change_events del_all os c w"

definition channel_remove ::
    "os \<Rightarrow> chan_ptr \<Rightarrow> 'a loop_world_scheme \<Rightarrow> cpp_error + 'a loop_world_scheme" where
  "channel_remove os c w =
     bindE (derefE (cw_channels w) c) (\<lambda>ch. loop_removeChannel os (ch_loop ch) c w)"

section \<open>Waking up and queueing\<close>

definition isInLoopThread :: "event_loop \<Rightarrow> 'a loop_world_scheme \<Rightarrow> bool" where
  "isInLoopThread lp w \<longleftrightarrow> el_threadId lp = io_tid w"

text \<open>The eight bytes of \<open>uint64_t one = 1\<close> on a little-endian machine.\<close>

definition one_bytes :: "char list" where
  "one_bytes = CHR 0x01 # replicate 7 (CHR 0x00)"

definition wakeup ::
    "os \<Rightarrow> loop_ptr \<Rightarrow> 'a loop_world_scheme \<Rightarrow> cpp_error + 'a loop_world_scheme" where
  "wakeup os l w =
     bindE (derefE (lw_loops w) l) (\<lambda>lp.
       let (n, w') = sys_write os (el_wakeupFd lp) one_bytes w
       in Inr (if n \<noteq> 8
               then note_log ERROR ''EventLoop::wakeup() writes %lu bytes instead of 8'' w' else w'))"

definition queueInLLoop ::
    "os \<Rightarrow> loop_ptr \<Rightarrow> task \<Rightarrow> 'a loop_world_scheme \<Rightarrow> cpp_error + 'a loop_world_scheme" where
  "queueInLLoop os l cb w =
     bindE (derefE (lw_loops w) l) (\<lambda>lp.
       let lp' = lp\<lparr>el_pendingFunctors := el_pendingFunctors lp @ [cb]\<rparr>;
           w' = put_loop l lp' w
       in if \<not> isInLoopThread lp' w' \<or> el_callingPendingFunctors lp' then wakeup os l w'
          else Inr w')"

text \<open>
  \<open>runInLoop\<close> gets its function twice: as the task to queue and as what a direct call does.
\<close>

definition runInLoop ::
    "os \<Rightarrow> loop_ptr \<Rightarrow> task \<Rightarrow> ('a loop_world_scheme \<Rightarrow> cpp_error + 'a loop_world_scheme) \<Rightarrow>
     'a loop_world_scheme \<Rightarrow> cpp_error + 'a loop_world_scheme" where
  "runInLoop os l cb call w =
     bindE (derefE (lw_loops w) l) (\<lambda>lp.
       if isInLoopThread lp w then call w else queueInLLoop os l cb w)"

definition loop_quit ::
    "os \<Rightarrow> loop_ptr \<Rightarrow> 'a loop_world_scheme \<Rightarrow> cpp_error + 'a loop_world_scheme" where
  "loop_quit os l w =
     bindE (derefE (lw_loops w) l) (\<lambda>lp.
       let w' = put_loop l (lp\<lparr>el_quit := True\<rparr>) w
       in if \<not> isInLoopThread lp w' then wakeup os l w' else Inr w')"

definition loop_handleRead ::
    "os \<Rightarrow> loop_ptr \<Rightarrow> 'a loop_world_scheme \<Rightarrow> cpp_error + 'a loop_world_scheme" where
  "loop_handleRead os l w =
     bindE (derefE (lw_loops w) l) (\<lambda>lp.
       let (n, bytes, w') = sys_read os (el_wakeupFd lp) 8 w
       in Inr (if n \<noteq> 8
               then note_log ERROR ''EventLoop::handleRead() reads %lu bytes instead of 8'' w' else w'))"

section \<open>The loop\<close>

text \<open>The queue is swapped out under the lock; what is queued meanwhile stays for the next round.\<close>

definition doPendingFunctors ::
    "(task \<Rightarrow> 'a loop_world_scheme \<Rightarrow> cpp_error + 'a loop_world_scheme) \<Rightarrow> loop_ptr \<Rightarrow>
     'a loop_world_scheme \<Rightarrow> cpp_error + 'a loop_world_scheme" where
  "doPendingFunctors exec l w =
     bindE (derefE (lw_loops w) l) (\<lambda>lp.
       let functors = el_pendingFunctors lp;
           w1 = put_loop l (lp\<lparr>el_callingPendingFunctors := True, el_pendingFunctors := []\<rparr>) w
       in bindE (foldE exec functors w1) (\<lambda>w2.
          bindE (derefE (lw_loops w2) l) (\<lambda>lp2.
            Inr (put_loop l (lp2\<lparr>el_callingPendingFunctors := False\<rparr>) w2))))"

text \<open>\<open>pollReturnTime_ = poller_->poll(KPollTimeMs, &activeChannels_)\<close> after \<open>clear()\<close>.\<close>

definition loop_poll ::
    "os \<Rightarrow> loop_ptr \<Rightarrow> 'a loop_world_scheme \<Rightarrow> cpp_error + 'a loop_world_scheme" where
  "loop_poll os l w =
     bindE (derefE (lw_loops w) l) (\<lambda>lp.
       case el_poller lp of
         None \<Rightarrow> Inl NullDereference
       | Some p \<Rightarrow>
           bindE (poller_poll os KPollTimeMs p [] w) (\<lambda>(now, active, p', w').
             Inr (put_loop l (lp\<lparr>el_poller := Some p', el_pollReturnTime := now,
                                el_activeChannels := active\<rparr>) w')))"

definition loop_iteration ::
    "os \<Rightarrow> ('a loop_world_scheme \<Rightarrow> conn_ptr \<Rightarrow> bool) \<Rightarrow>
     (chan_cb \<Rightarrow> timestamp \<Rightarrow> 'a loop_world_scheme \<Rightarrow> cpp_error + 'a loop_world_scheme) \<Rightarrow>
     (task \<Rightarrow> 'a loop_world_scheme \<Rightarrow> cpp_error + 'a loop_world_scheme) \<Rightarrow>
     loop_ptr \<Rightarrow> 'a loop_world_scheme \<Rightarrow> cpp_error + 'a loop_world_scheme" where
  "loop_iteration os alive run exec l w =
     bindE (loop_poll os l w) (\<lambda>w.
     bindE (derefE (lw_loops w) l) (\<lambda>lp.
     bindE (foldE (\<lambda>c. handleEvent alive run c (el_pollReturnTime lp)) (el_activeChannels lp) w) (\<lambda>w.
     doPendingFunctors exec l w)))"

text \<open>The \<open>while(!quit_)\<close> loop may go on for ever, which is the result \<open>None\<close>.\<close>

partial_function (option) loop_while ::
    "('w \<Rightarrow> cpp_error + bool) \<Rightarrow> ('w \<Rightarrow> cpp_error + 'w) \<Rightarrow> 'w \<Rightarrow> (cpp_error + 'w) option" where
  "loop_while quitting body w =
     (case quitting w of
        Inl e \<Rightarrow> Some (Inl e)
      | Inr q \<Rightarrow>
          if q then Some (Inr w)
          else (case body w of Inl e \<Rightarrow> Some (Inl e) | Inr w' \<Rightarrow> loop_while quitting body w'))"

definition loop_quitting :: "loop_ptr \<Rightarrow> 'a loop_world_scheme \<Rightarrow> cpp_error + bool" where
  "loop_quitting l w = bindE (derefE (lw_loops w) l) (\<lambda>lp. Inr (el_quit lp))"

text \<open>\<open>round\<close> is the body: \<open>loop_iteration\<close>, with the objects whose lifetime ends with it.\<close>

definition loop ::
    "('a loop_world_scheme \<Rightarrow> cpp_error + 'a loop_world_scheme) \<Rightarrow>
     loop_ptr \<Rightarrow> 'a loop_world_scheme \<Rightarrow> (cpp_error + 'a loop_world_scheme) option" where
  "loop round l w =
     (case derefE (lw_loops w) l of
        Inl e \<Rightarrow> Some (Inl e)
      | Inr lp \<Rightarrow>
          map_option (\<lambda>r. bindE r (\<lambda>w'. bindE (derefE (lw_loops w') l) (\<lambda>lp'.
              Inr (put_loop l (lp'\<lparr>el_looping := False\<rparr>) w'))))
            (loop_while (loop_quitting l) round
               (put_loop l (lp\<lparr>el_looping := True, el_quit := False\<rparr>) w)))"

section \<open>Construction and destruction\<close>

definition createEventfd :: "os \<Rightarrow> 'a io_state_scheme \<Rightarrow> int \<times> 'a io_state_scheme" where
  "createEventfd os w =
     (let (evtfd, w') = sys_open os EventFd w
      in (evtfd, if evtfd < 0 then note_log FATAL ''eventfd create error:%d'' w' else w'))"

definition EventLoop_new ::
    "bool \<Rightarrow> os \<Rightarrow> 'a loop_world_scheme \<Rightarrow> cpp_error + (loop_ptr \<times> 'a loop_world_scheme)" where
  "EventLoop_new muduo_use_poll os w =
     (let l = lw_next w; c = lw_next w + 1;
          (p, w) = newDefaultPoller muduo_use_poll os w;
          (evtfd, w) = createEventfd os w;
          lp = \<lparr>el_looping = False, el_quit = False, el_threadId = io_tid w,
                el_pollReturnTime = TimeStamp_default, el_poller = p, el_wakeupFd = evtfd,
                el_wakeupChannel = c, el_activeChannels = [], el_callingPendingFunctors = False,
                el_pendingFunctors = []\<rparr>;
          w = put_loop l lp (put_channel c (Channel_new l evtfd) (w\<lparr>lw_next := lw_next w + 2\<rparr>));
          w = (if lw_loopInThisThread w (io_tid w) \<noteq> None
               then note_log FATAL ''Another EventLoop %p exists in this thread %d'' w
               else w\<lparr>lw_loopInThisThread := (lw_loopInThisThread w)(io_tid w \<mapsto> l)\<rparr>);
          w = put_channel c (setReadCallback (LoopWakeup l) (Channel_new l evtfd)) w
      in bindE (enableReading os c w) (\<lambda>w. Inr (l, w)))"

text \<open>
  The destructor, then those of the members: the wakeup channel and the poller go.
\<close>

definition EventLoop_delete ::
    "os \<Rightarrow> loop_ptr \<Rightarrow> 'a loop_world_scheme \<Rightarrow> cpp_error + 'a loop_world_scheme" where
  "EventLoop_delete os l w =
     bindE (derefE (lw_loops w) l) (\<lambda>lp.
     bindE (disableAll os (el_wakeupChannel lp) w) (\<lambda>w.
     bindE (channel_remove os (el_wakeupChannel lp) w) (\<lambda>w.
       let w = snd (sys_call os (CloseFd (el_wakeupFd lp)) w);
           w = w\<lparr>lw_loopInThisThread := (lw_loopInThisThread w)(io_tid w := None)\<rparr>;
           w = w\<lparr>cw_channels := (cw_channels w)(el_wakeupChannel lp := None)\<rparr>
       in bindE (derefE (lw_loops w) l) (\<lambda>lp.
            Inr ((case el_poller lp of None \<Rightarrow> w | Some p \<Rightarrow> EpollPoller_delete os p w)
                 \<lparr>lw_loops := (lw_loops w)(l := None)\<rparr>)))))"

end
