(* ===== verification/Loop_Facts.thy ===== *)
theory Loop_Facts
  imports Event_Loop
begin

text \<open>
  Facts about the event loop that the connections and the server build on.

  \<^item> \<open>extends w w'\<close> is the contract of everything a loop calls (callbacks and tasks): channels stay
    and are dispatched as before, the trace grows, queues of tasks grow at the end only, and
    whoever queues for a loop that may sleep has written to its eventfd. Each operation is shown to
    keep it once; sequences keep it by transitivity.
  \<^item> \<open>loops_inv\<close>: every loop's poller agrees with its channels and with the interest list.
  \<^item> the behaviour of \<open>doPendingFunctors\<close> and of \<open>loop\<close> under the contract (locale \<open>task_runner\<close>).
\<close>

section \<open>Frames\<close>

lemma loop_more:
  "chan_world.more w' = chan_world.more w \<longleftrightarrow>
     lw_loops w' = lw_loops w \<and> lw_loopInThisThread w' = lw_loopInThisThread w \<and>
     lw_next w' = lw_next w \<and> lw_numCreated w' = lw_numCreated w \<and>
     loop_world.more w' = loop_world.more w"
  by (cases w; cases w') simp

lemma put_loop_simps [simp]:
  "lw_loops (put_loop l lp w) = (lw_loops w)(l \<mapsto> lp)"
  "cw_channels (put_loop l lp w) = cw_channels w"
  "io_trace (put_loop l lp w) = io_trace w"
  "io_errno (put_loop l lp w) = io_errno w"
  "io_log (put_loop l lp w) = io_log w"
  "io_tid (put_loop l lp w) = io_tid w"
  "lw_loopInThisThread (put_loop l lp w) = lw_loopInThisThread w"
  "lw_next (put_loop l lp w) = lw_next w"
  "lw_numCreated (put_loop l lp w) = lw_numCreated w"
  "loop_world.more (put_loop l lp w) = loop_world.more w"
  by (simp_all add: put_loop_def)

lemma loop_world_frame [simp]:
  "lw_loops (put_channel c ch w) = lw_loops w"
  "lw_loopInThisThread (put_channel c ch w) = lw_loopInThisThread w"
  "lw_next (put_channel c ch w) = lw_next w"
  "lw_numCreated (put_channel c ch w) = lw_numCreated w"
  "loop_world.more (put_channel c ch w) = loop_world.more w"
  "lw_loops (note_event e w) = lw_loops w" "lw_loops (note_log lv m w) = lw_loops w"
  "lw_loopInThisThread (note_event e w) = lw_loopInThisThread w"
  "lw_loopInThisThread (note_log lv m w) = lw_loopInThisThread w"
  "lw_next (note_event e w) = lw_next w" "lw_next (note_log lv m w) = lw_next w"
  "lw_numCreated (note_event e w) = lw_numCreated w"
  "lw_numCreated (note_log lv m w) = lw_numCreated w"
  "loop_world.more (note_event e w) = loop_world.more w"
  "loop_world.more (note_log lv m w) = loop_world.more w"
  by (simp_all add: put_channel_def note_event_def note_log_def)

text \<open>Steps below the loops: system calls and changes of channels.\<close>

definition io_step :: "'a chan_world_scheme \<Rightarrow> 'a chan_world_scheme \<Rightarrow> bool" where
  "io_step w w' \<longleftrightarrow> keeps_channels w w' \<and> dom (cw_channels w') = dom (cw_channels w) \<and>
     io_tid w' = io_tid w \<and>
     chan_world.more w' = chan_world.more w \<and> (\<exists>evs. io_trace w' = io_trace w @ evs)"

lemma io_step_refl [simp]: "io_step w w"
  by (simp add: io_step_def)

lemma io_step_trans [trans]: "io_step u v \<Longrightarrow> io_step v w \<Longrightarrow> io_step u w"
  unfolding io_step_def by (auto intro: keeps_channels_trans)

lemma io_step_basic [simp]:
  "io_step w (note_event e w)" "io_step w (note_log lv m w)" "io_step w (w\<lparr>io_errno := n\<rparr>)"
  "io_step w (note_event e (w\<lparr>io_errno := n\<rparr>))"
  "cw_channels w c = Some ch \<Longrightarrow> same_dispatch ch ch' \<Longrightarrow> io_step w (put_channel c ch' w)"
  by (auto simp: io_step_def intro: keeps_channels_eq keeps_channels_put)

lemma sys_step:
  "sys_write os f bytes w = (n, w') \<Longrightarrow> io_step w w'"
  "sys_read os f room w = (n, got, w') \<Longrightarrow> io_step w w'"
  "sys_call os call w = (n, w') \<Longrightarrow> io_step w w'"
  "sys_open os oc w = (n, w') \<Longrightarrow> io_step w w'"
  "sys_wait os f k w = (n, evs, w') \<Longrightarrow> io_step w w'"
  by (auto simp: sys_write_def sys_read_def sys_call_def sys_open_def sys_wait_def Let_def
      split: sum.splits option.splits)

lemma sys_step_snd [simp]:
  "io_step w (snd (sys_write os f bytes w))"
  "io_step w (snd (snd (sys_read os f room w)))"
  "io_step w (snd (sys_call os call w))"
  "io_step w (snd (sys_open os oc w))"
  by (metis sys_step prod.collapse)+

lemma same_dispatch_changes [simp]:
  "same_dispatch ch (set_index i ch)" "same_dispatch ch (add_read ch)"
  "same_dispatch ch (del_read ch)" "same_dispatch ch (add_write ch)"
  "same_dispatch ch (del_write ch)" "same_dispatch ch (del_all ch)" "same_dispatch ch (tie o' ch)"
  by (simp_all add: same_dispatch_def channel_defs)

lemma poller_ctl_step:
  assumes "poller_ctl os op c p w = Inr w'"
  shows "io_step w w'"
proof -
  from assms obtain ch where ch: "cw_channels w c = Some ch"
    by (auto simp: poller_ctl_def bind_simps)
  obtain r v where rv: "sys_call os (EpollCtl (ep_epollfd p) op (ch_fd ch) (ch_events ch) c) w = (r, v)"
    by fastforce
  with assms ch have "w' = v \<or> (\<exists>lv m. w' = note_log lv m v)"
    by (auto simp: poller_ctl_def split: if_splits)
  with sys_step(3) [OF rv] show ?thesis by (auto intro: io_step_trans)
qed

lemma channel_set_index_step: "channel_set_index c i w = Inr w' \<Longrightarrow> io_step w w'"
  by (auto simp: channel_set_index_def bind_simps)

lemma poller_updateChannel_step: "poller_updateChannel os c p w = Inr (p', w') \<Longrightarrow> io_step w w'"
  by (auto simp: poller_updateChannel_def bind_simps Let_def split: if_splits
      dest!: poller_ctl_step channel_set_index_step intro: io_step_trans)

lemma poller_removeChannel_step: "poller_removeChannel os c p w = Inr (p', w') \<Longrightarrow> io_step w w'"
  by (auto simp: poller_removeChannel_def bind_simps Let_def split: if_splits
      dest!: poller_ctl_step channel_set_index_step intro: io_step_trans)

section \<open>The contract of callbacks and tasks\<close>

text \<open>Addresses at and above \<open>lw_next\<close> are free.\<close>

definition addr_ok :: "'a loop_world_scheme \<Rightarrow> bool" where
  "addr_ok w \<longleftrightarrow> (\<forall>c \<in> dom (cw_channels w). c < lw_next w) \<and> (\<forall>l \<in> dom (lw_loops w). l < lw_next w)"

text \<open>A write to the descriptor \<open>f\<close> was made (or tried) among the events.\<close>

definition woken :: "int \<Rightarrow> io_event list \<Rightarrow> bool" where
  "woken f evs \<longleftrightarrow> (\<exists>bytes. Wrote f bytes \<in> set evs) \<or> (\<exists>e. WriteFailed f e \<in> set evs)"

lemma woken_append [simp]: "woken f (xs @ ys) \<longleftrightarrow> woken f xs \<or> woken f ys"
  by (auto simp: woken_def)

text \<open>What of a loop its callbacks and tasks leave alone.\<close>

definition same_loop :: "event_loop \<Rightarrow> event_loop \<Rightarrow> bool" where
  "same_loop lp lp' \<longleftrightarrow>
     el_threadId lp' = el_threadId lp \<and> el_wakeupFd lp' = el_wakeupFd lp \<and>
     el_wakeupChannel lp' = el_wakeupChannel lp \<and>
     el_callingPendingFunctors lp' = el_callingPendingFunctors lp"

definition queue_grows :: "int \<Rightarrow> io_event list \<Rightarrow> event_loop \<Rightarrow> event_loop \<Rightarrow> bool" where
  "queue_grows t evs lp lp' \<longleftrightarrow> same_loop lp lp' \<and>
     (\<exists>new. el_pendingFunctors lp' = el_pendingFunctors lp @ new \<and>
        (new \<noteq> [] \<and> (el_callingPendingFunctors lp \<or> el_threadId lp \<noteq> t) \<longrightarrow>
           woken (el_wakeupFd lp) evs))"

definition grows :: "'a loop_world_scheme \<Rightarrow> 'a loop_world_scheme \<Rightarrow> bool" where
  "grows w w' \<longleftrightarrow> keeps_channels w w' \<and> io_tid w' = io_tid w \<and>
     (\<exists>evs. io_trace w' = io_trace w @ evs \<and>
        (\<forall>l lp. lw_loops w l = Some lp \<longrightarrow>
           (\<exists>lp'. lw_loops w' l = Some lp' \<and> queue_grows (io_tid w) evs lp lp')))"

definition extends :: "'a loop_world_scheme \<Rightarrow> 'a loop_world_scheme \<Rightarrow> bool" where
  "extends w w' \<longleftrightarrow> (addr_ok w \<longrightarrow> addr_ok w' \<and> grows w w')"

lemma queue_grows_trans:
  "queue_grows t xs a b \<Longrightarrow> queue_grows t ys b c \<Longrightarrow> queue_grows t (xs @ ys) a c"
  by (auto simp: queue_grows_def same_loop_def)

lemma queue_grows_refl [simp]: "queue_grows t evs lp lp"
  by (simp add: queue_grows_def same_loop_def)

lemma grows_refl [simp]: "grows w w"
  by (simp add: grows_def)

lemma grows_trans:
  assumes "grows u v" and "grows v w"
  shows "grows u w"
proof -
  from assms(1) obtain xs where xs: "io_trace v = io_trace u @ xs"
      "\<And>l lp. lw_loops u l = Some lp \<Longrightarrow>
         \<exists>lp'. lw_loops v l = Some lp' \<and> queue_grows (io_tid u) xs lp lp'"
    unfolding grows_def by blast
  from assms obtain ys where ys: "io_trace w = io_trace v @ ys"
      "\<And>l lp. lw_loops v l = Some lp \<Longrightarrow>
         \<exists>lp'. lw_loops w l = Some lp' \<and> queue_grows (io_tid u) ys lp lp'"
    unfolding grows_def by metis
  have "\<exists>lp'. lw_loops w l = Some lp' \<and> queue_grows (io_tid u) (xs @ ys) lp lp'"
    if "lw_loops u l = Some lp" for l lp
    using xs(2) [OF that] ys(2) queue_grows_trans by blast
  moreover have "keeps_channels u w" "io_tid w = io_tid u"
    using assms unfolding grows_def by (auto intro: keeps_channels_trans)
  moreover have "io_trace w = io_trace u @ (xs @ ys)" using xs(1) ys(1) by simp
  ultimately show ?thesis unfolding grows_def by blast
qed

lemma extends_refl [simp]: "extends w w"
  by (simp add: extends_def)

lemma extends_trans [trans]: "extends u v \<Longrightarrow> extends v w \<Longrightarrow> extends u w"
  unfolding extends_def by (blast intro: grows_trans)

lemma extendsD: "extends w w' \<Longrightarrow> addr_ok w \<Longrightarrow> addr_ok w'"
  by (simp add: extends_def)

lemma extends_keeps_channels: "extends w w' \<Longrightarrow> addr_ok w \<Longrightarrow> keeps_channels w w'"
  by (simp add: extends_def grows_def)

lemma addr_ok_put_loop [simp]: "lw_loops w l = Some lp0 \<Longrightarrow> addr_ok w \<Longrightarrow> addr_ok (put_loop l lp w)"
  by (auto simp: addr_ok_def)

lemma io_step_extends: "io_step w w' \<Longrightarrow> extends w w'"
  by (auto simp: io_step_def extends_def grows_def addr_ok_def loop_more)

lemma extends_basic [simp]:
  "extends w (note_event e w)" "extends w (note_log lv m w)" "extends w (w\<lparr>io_errno := n\<rparr>)"
  "cw_channels w c = Some ch \<Longrightarrow> same_dispatch ch ch' \<Longrightarrow> extends w (put_channel c ch' w)"
  by (simp_all add: io_step_extends)

lemma put_loop_extends:
  "lw_loops w l = Some lp \<Longrightarrow> queue_grows (io_tid w) [] lp lp' \<Longrightarrow> extends w (put_loop l lp' w)"
  by (auto simp: extends_def grows_def addr_ok_def intro: keeps_channels_eq)

lemma bindE_extends:
  assumes "bindE r f = Inr w'" and "\<And>x. r = Inr x \<Longrightarrow> extends w (g x)"
    and "\<And>x. r = Inr x \<Longrightarrow> f x = Inr w' \<Longrightarrow> extends (g x) w'"
  shows "extends w w'"
  using assms by (cases r) (auto intro: extends_trans)

lemma extends_sys [simp]:
  "extends w (snd (sys_write os f bytes w))"
  "extends w (snd (snd (sys_read os f room w)))"
  "extends w (snd (sys_call os call w))"
  "extends w (snd (sys_open os oc w))"
  by (simp_all add: io_step_extends)

lemma extends_then [simp, intro]:
  "extends w v \<Longrightarrow> extends w (note_log lv m v)"
  "extends w v \<Longrightarrow> extends w (note_event e v)"
  "extends w v \<Longrightarrow> extends w (v\<lparr>io_errno := n\<rparr>)"
  by (auto intro: extends_trans)

text \<open>The poller of a loop, replaced after a step of the world below.\<close>

lemma poller_put_extends:
  assumes "io_step w w'" and "lw_loops w l = Some lp"
  shows "extends w (put_loop l (lp\<lparr>el_poller := q\<rparr>) w')"
proof -
  have "lw_loops w' l = Some lp" using assms by (simp add: io_step_def loop_more)
  then have "extends w' (put_loop l (lp\<lparr>el_poller := q\<rparr>) w')"
    by (rule put_loop_extends) (simp add: queue_grows_def same_loop_def)
  then show ?thesis using assms(1) by (blast intro: extends_trans io_step_extends)
qed

lemma loop_updateChannel_extends: "loop_updateChannel os l c w = Inr w' \<Longrightarrow> extends w w'"
  by (auto simp: loop_updateChannel_def bind_simps split: option.splits
      dest!: poller_updateChannel_step intro: poller_put_extends)

lemma loop_removeChannel_extends: "loop_removeChannel os l c w = Inr w' \<Longrightarrow> extends w w'"
  by (auto simp: loop_removeChannel_def bind_simps split: option.splits
      dest!: poller_removeChannel_step intro: poller_put_extends)

lemma change_events_extends:
  assumes "change_events change os c w = Inr w'" and "\<And>ch. same_dispatch ch (change ch)"
  shows "extends w w'"
  using assms
  by (auto simp: change_events_def bind_simps dest!: loop_updateChannel_extends
      intro: extends_trans [OF extends_basic(4)])

lemma channel_ops_extends:
  "enableReading os c w = Inr w' \<Longrightarrow> extends w w'"
  "disableReading os c w = Inr w' \<Longrightarrow> extends w w'"
  "enableWriting os c w = Inr w' \<Longrightarrow> extends w w'"
  "disableWriting os c w = Inr w' \<Longrightarrow> extends w w'"
  "disableAll os c w = Inr w' \<Longrightarrow> extends w w'"
  "channel_remove os c w = Inr w' \<Longrightarrow> extends w w'"
  by (auto simp: enableReading_def disableReading_def enableWriting_def disableWriting_def
      disableAll_def channel_remove_def bind_simps
      dest: change_events_extends loop_removeChannel_extends)

lemma wakeup_extends: "wakeup os l w = Inr w' \<Longrightarrow> extends w w'"
  by (auto simp: wakeup_def bind_simps Let_def split_beta split: if_splits)

lemma wakeup_wakes:
  assumes "wakeup os l w = Inr w'" and "lw_loops w l = Some lp"
  shows "\<exists>evs. io_trace w' = io_trace w @ evs \<and> woken (el_wakeupFd lp) evs \<and>
      lw_loops w' = lw_loops w \<and> cw_channels w' = cw_channels w \<and> io_tid w' = io_tid w"
  using assms
  by (cases rule: sys_write_cases [of os "el_wakeupFd lp" one_bytes w])
    (auto simp: wakeup_def woken_def split: if_splits)

lemma queueInLLoop_extends:
  assumes q: "queueInLLoop os l cb w = Inr w'"
  shows "extends w w'"
proof -
  from q obtain lp where lp: "lw_loops w l = Some lp"
    by (auto simp: queueInLLoop_def bind_simps)
  let ?lp = "lp\<lparr>el_pendingFunctors := el_pendingFunctors lp @ [cb]\<rparr>"
  let ?w = "put_loop l ?lp w"
  show ?thesis
  proof (cases "el_threadId lp \<noteq> io_tid w \<or> el_callingPendingFunctors lp")
    case True
    then have "wakeup os l ?w = Inr w'"
      using q lp by (auto simp: queueInLLoop_def isInLoopThread_def)
    from this have nxt: "lw_next w' = lw_next w"
      by (auto simp: wakeup_def bind_simps Let_def split_beta sys_write_def split: if_splits sum.splits)
    from wakeup_wakes [OF \<open>wakeup os l ?w = Inr w'\<close>, of ?lp] obtain evs where
        "io_trace w' = io_trace w @ evs" "woken (el_wakeupFd lp) evs"
        "lw_loops w' = (lw_loops w)(l \<mapsto> ?lp)" "cw_channels w' = cw_channels w" "io_tid w' = io_tid w"
      by auto
    then show ?thesis
      using lp nxt by (auto simp: extends_def grows_def addr_ok_def queue_grows_def same_loop_def
          intro: keeps_channels_eq)
  next
    case False
    then have "w' = ?w" using q lp by (auto simp: queueInLLoop_def isInLoopThread_def)
    then show ?thesis
      using lp False by (auto simp: queue_grows_def same_loop_def intro: put_loop_extends)
  qed
qed

lemma runInLoop_extends:
  assumes "runInLoop os l cb call w = Inr w'" and "\<And>v v'. call v = Inr v' \<Longrightarrow> extends v v'"
  shows "extends w w'"
  using assms by (auto simp: runInLoop_def bind_simps split: if_splits dest: queueInLLoop_extends)

lemma loop_quit_extends: "loop_quit os l w = Inr w' \<Longrightarrow> extends w w'"
proof -
  assume q: "loop_quit os l w = Inr w'"
  then obtain lp where lp: "lw_loops w l = Some lp" by (auto simp: loop_quit_def bind_simps)
  have "extends w (put_loop l (lp\<lparr>el_quit := True\<rparr>) w)"
    using lp by (rule put_loop_extends) (simp add: queue_grows_def same_loop_def)
  then show "extends w w'"
    using q lp
    by (auto simp: loop_quit_def Let_def split: if_splits dest!: wakeup_extends intro: extends_trans)
qed

lemma loop_handleRead_extends: "loop_handleRead os l w = Inr w' \<Longrightarrow> extends w w'"
  by (auto simp: loop_handleRead_def bind_simps Let_def split_beta split: if_splits)

section \<open>One round of the loop\<close>

definition pending :: "loop_ptr \<Rightarrow> 'a loop_world_scheme \<Rightarrow> task list" where
  "pending l w = (case lw_loops w l of None \<Rightarrow> [] | Some lp \<Rightarrow> el_pendingFunctors lp)"

lemma foldE_extends:
  assumes "foldE f xs w = Inr w'" and "\<And>x v v'. f x v = Inr v' \<Longrightarrow> extends v v'"
  shows "extends w w'"
  by (rule foldE_invariant [OF assms(1), where P = "extends w"]) (auto intro: assms(2) extends_trans)

lemma extends_loopD:
  assumes "extends w w'" and "addr_ok w" and "lw_loops w l = Some lp"
  obtains lp' evs where "lw_loops w' l = Some lp'" and "io_trace w' = io_trace w @ evs"
    and "queue_grows (io_tid w) evs lp lp'" and "io_tid w' = io_tid w"
  using assms unfolding extends_def grows_def by blast

lemma fill_step_dom:
  assumes "fill_step e s = Inr s'"
  shows "chan_world.more (snd s') = chan_world.more (snd s) \<and>
      dom (cw_channels (snd s')) = dom (cw_channels (snd s))"
proof -
  obtain c ev active w where "e = (c, ev)" "s = (active, w)" by (cases e, cases s)
  with assms obtain ch where "cw_channels w c = Some ch"
      "s' = (active @ [c], put_channel c (set_revents ev ch) w)"
    by (auto simp: bind_simps)
  then show ?thesis using \<open>s = (active, w)\<close> by (simp add: insert_absorb domI)
qed

lemma fillActiveChannels_dom:
  assumes "fillActiveChannels n q a v = Inr (act, v')"
  shows "chan_world.more v' = chan_world.more v \<and> dom (cw_channels v') = dom (cw_channels v)"
proof -
  have "chan_world.more (snd (act, v')) = chan_world.more v \<and>
      dom (cw_channels (snd (act, v'))) = dom (cw_channels v)"
    using assms unfolding fillActiveChannels_def
    by (rule foldE_invariant [where P = "\<lambda>s. chan_world.more (snd s) = chan_world.more v \<and>
          dom (cw_channels (snd s)) = dom (cw_channels v)"])
      (simp_all add: fill_step_dom)
  then show ?thesis by simp
qed

lemma loop_poll_addr:
  assumes run: "loop_poll os l w = Inr w'" and ok: "addr_ok w"
  shows "addr_ok w'"
proof -
  from run obtain lp p now active p' v where lp: "lw_loops w l = Some lp"
      and p: "poller_poll os KPollTimeMs p [] w = Inr (now, active, p', v)"
      and w': "w' = put_loop l (lp\<lparr>el_poller := Some p', el_pollReturnTime := now,
                                el_activeChannels := active\<rparr>) v"
    by (auto simp: loop_poll_def bind_simps split: option.splits)
  obtain n evs u where u: "sys_wait os (ep_epollfd p) (length (ep_events p)) w = (n, evs, u)"
    using prod_cases3 by blast
  have "chan_world.more v = chan_world.more u \<and> dom (cw_channels v) = dom (cw_channels u)"
    using p unfolding poller_poll_def u Let_def prod.case
    by (clarsimp simp: bind_simps fillActiveChannels_dom split: if_splits)
  with sys_step(5) [OF u] lp ok show ?thesis
    by (auto simp: w' io_step_def loop_more addr_ok_def)
qed

locale task_runner =
  fixes exec :: "task \<Rightarrow> 'a loop_world_scheme \<Rightarrow> cpp_error + 'a loop_world_scheme"
  assumes exec_extends: "exec t w = Inr w' \<Longrightarrow> extends w w'"
begin

text \<open>
  \<open>doPendingFunctors\<close> runs the tasks that were queued, once each and in order; what they queue stays
  behind, and then the eventfd has been written, so the next poll does not sleep on it.
\<close>

lemma doPendingFunctors_result:
  assumes run: "doPendingFunctors exec l w = Inr w'" and ok: "addr_ok w" and lp: "lw_loops w l = Some lp"
  obtains w2 lp2 evs where
    "foldE exec (el_pendingFunctors lp)
       (put_loop l (lp\<lparr>el_callingPendingFunctors := True, el_pendingFunctors := []\<rparr>) w) = Inr w2"
    and "lw_loops w2 l = Some lp2" and "w' = put_loop l (lp2\<lparr>el_callingPendingFunctors := False\<rparr>) w2"
    and "io_trace w' = io_trace w @ evs"
    and "pending l w' \<noteq> [] \<Longrightarrow> woken (el_wakeupFd lp) evs" and "addr_ok w'"
proof -
  let ?lp1 = "lp\<lparr>el_callingPendingFunctors := True, el_pendingFunctors := []\<rparr>"
  let ?w1 = "put_loop l ?lp1 w"
  from run lp obtain w2 lp2 where w2: "foldE exec (el_pendingFunctors lp) ?w1 = Inr w2"
      and lp2: "lw_loops w2 l = Some lp2"
      and w': "w' = put_loop l (lp2\<lparr>el_callingPendingFunctors := False\<rparr>) w2"
    by (auto simp: doPendingFunctors_def bind_simps)
  have "extends ?w1 w2" using w2 exec_extends by (rule foldE_extends)
  then obtain lp2' evs where "lw_loops w2 l = Some lp2'" "io_trace w2 = io_trace ?w1 @ evs"
      "queue_grows (io_tid ?w1) evs ?lp1 lp2'"
    by (rule extends_loopD [where l = l and lp = ?lp1]) (use ok lp in auto)
  moreover have "addr_ok w2" using \<open>extends ?w1 w2\<close> by (rule extendsD) (use ok lp in simp)
  ultimately have "addr_ok w'" using lp2 w' by simp
  from \<open>lw_loops w2 l = Some lp2'\<close> \<open>io_trace w2 = io_trace ?w1 @ evs\<close>
    \<open>queue_grows (io_tid ?w1) evs ?lp1 lp2'\<close> lp2 w' have "io_trace w' = io_trace w @ evs" "pending l w' \<noteq> [] \<Longrightarrow> woken (el_wakeupFd lp) evs"
    by (auto simp: queue_grows_def pending_def)
  with w2 lp2 w' \<open>addr_ok w'\<close> show ?thesis using that by blast
qed

text \<open>A whole round: poll, callbacks of the active channels, then the tasks.\<close>

lemma loop_iteration_result:
  assumes run: "loop_iteration os alive cbrun exec l w = Inr w'" and ok: "addr_ok w"
    and lp: "lw_loops w l = Some lp"
    and cb: "\<And>cb t v v'. cbrun cb t v = Inr v' \<Longrightarrow> extends v v'"
  obtains w1 lp1 w2 lp2 evs where "lw_loops w1 l = Some lp1"
    and "\<exists>new. el_pendingFunctors lp1 = el_pendingFunctors lp @ new"
    and "foldE exec (el_pendingFunctors lp1)
       (put_loop l (lp1\<lparr>el_callingPendingFunctors := True, el_pendingFunctors := []\<rparr>) w1) = Inr w2"
    and "lw_loops w2 l = Some lp2" and "w' = put_loop l (lp2\<lparr>el_callingPendingFunctors := False\<rparr>) w2"
    and "io_trace w' = io_trace w1 @ evs"
    and "pending l w' \<noteq> [] \<Longrightarrow> woken (el_wakeupFd lp) evs" and "addr_ok w'"
proof -
  from run obtain w0 lp0 w1 where p: "loop_poll os l w = Inr w0" and lp0: "lw_loops w0 l = Some lp0"
      and h: "foldE (\<lambda>c. handleEvent alive cbrun c (el_pollReturnTime lp0)) (el_activeChannels lp0) w0 = Inr w1"
      and d: "doPendingFunctors exec l w1 = Inr w'"
    by (auto simp: loop_iteration_def bind_simps)
  have lp0': "el_pendingFunctors lp0 = el_pendingFunctors lp \<and> el_wakeupFd lp0 = el_wakeupFd lp"
    using p lp lp0 by (auto simp: loop_poll_def bind_simps split: option.splits)
  have ok0: "addr_ok w0" using loop_poll_addr [OF p ok] .
  have ext: "extends w0 w1"
  proof (rule foldE_extends [OF h])
    fix c v v'
    have f: "fire cbrun due sel c t u = Inr u' \<Longrightarrow> extends u u'" for due sel t u u'
      by (auto simp: fire_def bind_simps split: if_splits option.splits dest: cb)
    assume "handleEvent alive cbrun c (el_pollReturnTime lp0) v = Inr v'"
    then show "extends v v'"
      by (auto simp: handleEvent_def handleEventWithGuard_def bind_simps split: if_splits option.splits
          dest!: f intro: extends_trans)
  qed
  then obtain lp1 where lp1: "lw_loops w1 l = Some lp1" and
      "\<exists>new. el_pendingFunctors lp1 = el_pendingFunctors lp0 @ new" "el_wakeupFd lp1 = el_wakeupFd lp0"
    using lp0 ok0 by (elim extends_loopD) (auto simp: queue_grows_def same_loop_def)
  moreover note doPendingFunctors_result [OF d extendsD [OF ext ok0] lp1]
  ultimately show ?thesis using that lp1 lp0' by metis
qed

end

section \<open>The \<open>while\<close> loop\<close>

fun rounds :: "('w \<Rightarrow> cpp_error + 'w) \<Rightarrow> nat \<Rightarrow> 'w \<Rightarrow> cpp_error + 'w" where
  "rounds body 0 w = Inr w"
| "rounds body (Suc k) w = bindE (body w) (rounds body k)"

text \<open>The loop returns when the flag is found set after some number of rounds.\<close>

lemma loop_while_returns:
  assumes "rounds body k w = Inr w'" and "quitting w' = Inr True"
    and "\<And>j v. j < k \<Longrightarrow> rounds body j w = Inr v \<Longrightarrow> quitting v = Inr False"
  shows "loop_while quitting body w = Some (Inr w')"
  using assms
proof (induction k arbitrary: w)
  case 0
  then show ?case by (simp add: loop_while.simps)
next
  case (Suc k)
  from Suc.prems(1) obtain v where v: "body w = Inr v" "rounds body k v = Inr w'"
    by (auto simp: bind_simps)
  have "quitting w = Inr False" using Suc.prems(3) [of 0 w] by simp
  moreover have "loop_while quitting body v = Some (Inr w')"
  proof (rule Suc.IH [OF v(2) Suc.prems(2)])
    show "j < k \<Longrightarrow> rounds body j v = Inr u \<Longrightarrow> quitting u = Inr False" for j u
      using Suc.prems(3) [of "Suc j" u] v(1) by simp
  qed
  ultimately show ?case using v(1) by (simp add: loop_while.simps [of quitting body w])
qed

text \<open>And it returns in no other way.\<close>

lemma loop_while_exit:
  assumes "loop_while quitting body w = Some (Inr w')"
  shows "quitting w' = Inr True \<and> (\<exists>k. rounds body k w = Inr w' \<and>
    (\<forall>j v. j < k \<longrightarrow> rounds body j w = Inr v \<longrightarrow> quitting v = Inr False))"
proof -
  let ?P = "\<lambda>quitting body w r. \<forall>v. r = Inr v \<longrightarrow> quitting v = Inr True \<and>
      (\<exists>k. rounds body k w = Inr v \<and>
        (\<forall>j u. j < k \<longrightarrow> rounds body j w = Inr u \<longrightarrow> quitting u = Inr False))"
  have "?P quitting body w r" if "loop_while quitting body w = Some r" for r
  proof (rule loop_while.raw_induct [OF _ that, where P = ?P])
    fix loop_while quitting body w r
    assume IH: "\<And>quitting body w r. loop_while quitting body w = Some r \<Longrightarrow> ?P quitting body w r"
      and eq: "(case quitting w of Inl e \<Rightarrow> Some (Inl e)
          | Inr q \<Rightarrow> if q then Some (Inr w)
              else case body w of Inl e \<Rightarrow> Some (Inl e) | Inr w' \<Rightarrow> loop_while quitting body w') = Some r"
    show "?P quitting body w r"
    proof (intro allI impI)
      fix v assume r: "r = Inr v"
      let ?early = "\<lambda>k. \<forall>j u. j < k \<longrightarrow> rounds body j w = Inr u \<longrightarrow> quitting u = Inr False"
      show "quitting v = Inr True \<and> (\<exists>k. rounds body k w = Inr v \<and> ?early k)"
      proof (cases "quitting w")
        case (Inl e)
        with eq r show ?thesis by simp
      next
        case (Inr q)
        show ?thesis
        proof (cases q)
          case True
          with eq r Inr have "v = w" by simp
          with Inr True show ?thesis by (auto intro: exI [of _ 0])
        next
          case False
          with eq r Inr obtain u where u: "body w = Inr u" "loop_while quitting body u = Some r"
            by (cases "body w") simp_all
          from IH [OF u(2)] r obtain k where k: "quitting v = Inr True" "rounds body k u = Inr v"
              "\<And>j x. j < k \<Longrightarrow> rounds body j u = Inr x \<Longrightarrow> quitting x = Inr False"
            by blast
          have "quitting x = Inr False" if "j < Suc k" "rounds body j w = Inr x" for j x
            using that u(1) k(3) Inr False by (cases j) simp_all
          with u(1) k(1,2) show ?thesis by (intro conjI exI [of _ "Suc k"]) simp_all
        qed
      qed
    qed
  qed
  then show ?thesis using assms by blast
qed

end
