(* ===== verification/Loop_Invariant.thy ===== *)
theory Loop_Invariant
  imports Loop_Facts
begin

text \<open>
  Several loops at once: \<open>loops_inv\<close> says that every loop has a poller that agrees with its
  channels, that no two pollers share an epoll instance, that every channel belongs to a loop and
  that no two channels share a descriptor. The public operations of a channel keep it, so they
  neither fail nor issue an \<open>epoll_ctl\<close> the kernel would refuse, and the interest list always
  holds the masks of the registered channels.
\<close>

lemma poller_inv_put_loop [simp]: "poller_inv k q (put_loop l lp w) \<longleftrightarrow> poller_inv k q w"
  by (simp add: poller_inv_def)

definition poller_at :: "loop_ptr \<Rightarrow> 'a loop_world_scheme \<Rightarrow> poller option" where
  "poller_at l w = Option.bind (lw_loops w l) el_poller"

definition same_epolls :: "'a loop_world_scheme \<Rightarrow> 'a loop_world_scheme \<Rightarrow> bool" where
  "same_epolls w w' \<longleftrightarrow>
     (\<forall>k. map_option ep_epollfd (poller_at k w') = map_option ep_epollfd (poller_at k w))"

definition loops_inv :: "'a loop_world_scheme \<Rightarrow> bool" where
  "loops_inv w \<longleftrightarrow>
     (\<forall>l lp. lw_loops w l = Some lp \<longrightarrow> (\<exists>p. poller_at l w = Some p \<and> poller_inv l p w)) \<and>
     (\<forall>l l' p p'. poller_at l w = Some p \<and> poller_at l' w = Some p' \<and> ep_epollfd p = ep_epollfd p'
        \<longrightarrow> l = l') \<and>
     (\<forall>c ch. cw_channels w c = Some ch \<longrightarrow> lw_loops w (ch_loop ch) \<noteq> None) \<and>
     (\<forall>c d ch dh. cw_channels w c = Some ch \<and> cw_channels w d = Some dh \<and> ch_fd ch = ch_fd dh
        \<longrightarrow> c = d)"

lemma loops_invD:
  assumes "loops_inv w"
  shows "lw_loops w l = Some lp \<Longrightarrow> \<exists>p. el_poller lp = Some p \<and> poller_inv l p w"
    and "poller_at l w = Some p \<Longrightarrow> poller_at l' w = Some p' \<Longrightarrow> ep_epollfd p = ep_epollfd p' \<Longrightarrow> l = l'"
    and "cw_channels w c = Some ch \<Longrightarrow> \<exists>lp. lw_loops w (ch_loop ch) = Some lp"
    and "cw_channels w c = Some ch \<Longrightarrow> cw_channels w d = Some dh \<Longrightarrow> ch_fd ch = ch_fd dh \<Longrightarrow> c = d"
  using assms unfolding loops_inv_def poller_at_def by fastforce+

text \<open>Events that mean nothing to the epoll instance \<open>e\<close>.\<close>

fun neutral_event :: "int \<Rightarrow> io_event \<Rightarrow> bool" where
  "neutral_event e (Did (EpollCtl e' op f ev c) r) = (e' \<noteq> e)"
| "neutral_event e (Did (CloseFd f) r) = False"
| "neutral_event e _ = True"

lemma neutral_interest:
  assumes "neutral_event e ev"
  shows "interest_step e ev m = m" and "legal_event e m ev"
proof -
  have "interest_step e ev m = m \<and> legal_event e m ev"
  proof (cases ev)
    case (Did call r)
    then show ?thesis
    proof (cases call)
      case (EpollCtl e' op f msk c)
      then show ?thesis using assms Did by (cases op) simp_all
    qed (use assms in simp_all)
  qed simp_all
  then show "interest_step e ev m = m" and "legal_event e m ev" by blast+
qed

lemma neutral_trace:
  assumes "\<forall>ev \<in> set evs. neutral_event e ev"
  shows "interest e (tr @ evs) = interest e tr" and "legal_trace e (tr @ evs) = legal_trace e tr"
  using assms
  by (induction evs rule: rev_induct)
    (simp_all add: interest_snoc legal_trace_snoc neutral_interest flip: append_assoc)

text \<open>A poller does not notice what happens to the channels of other loops.\<close>

lemma poller_inv_other:
  assumes inv: "poller_inv l p w" and tr: "io_trace w' = io_trace w @ evs"
    and neutral: "\<forall>ev \<in> set evs. neutral_event (ep_epollfd p) ev"
    and p: "ep_epollfd p' = ep_epollfd p" "ep_channels p' = ep_channels p"
    and mine: "\<And>c ch. ch_loop ch = l \<Longrightarrow> cw_channels w' c = Some ch \<longleftrightarrow> cw_channels w c = Some ch"
  shows "poller_inv l p' w'"
proof (rule poller_invI)
  note n = neutral_trace [OF neutral]
  show "legal_trace (ep_epollfd p') (io_trace w')"
    using poller_inv_legal [OF inv] by (simp add: p tr n)
  show "\<exists>ch. cw_channels w' c = Some ch \<and> ch_loop ch = l \<and> ch_fd ch = f \<and> ch_index ch \<noteq> KNew"
    if "ep_channels p' f = Some c" for f c
    using poller_inv_map [OF inv, of f c] that p(2) mine by auto
  show "interest (ep_epollfd p') (io_trace w') f \<noteq> None \<Longrightarrow> ep_channels p' f \<noteq> None" for f
    using poller_inv_interest [OF inv, of f] by (simp add: p tr n)
  fix c ch
  assume "cw_channels w' c = Some ch" and l: "ch_loop ch = l"
  then have "cw_channels w c = Some ch" using mine by blast
  from poller_inv_chan [OF inv this l]
  show "ch_index ch \<in> {KNew, KAdded, KDeleted} \<and>
      (ch_index ch \<noteq> KNew \<longrightarrow> ep_channels p' (ch_fd ch) = Some c) \<and>
      (ch_index ch = KAdded \<longrightarrow>
         interest (ep_epollfd p') (io_trace w') (ch_fd ch) = Some (ch_events ch, c)) \<and>
      (ch_index ch = KDeleted \<longrightarrow> interest (ep_epollfd p') (io_trace w') (ch_fd ch) = None)"
    by (simp add: p tr n)
qed

text \<open>
  The common shape of the operations: channel \<open>c\<close> of loop \<open>l\<close> changes but for its loop and
  descriptor, and the poller of \<open>l\<close> issues at most one \<open>epoll_ctl\<close>.
\<close>

lemma loops_inv_step:
  assumes inv: "loops_inv w" and c: "cw_channels w c = Some ch" and l: "ch_loop ch = l"
    and lp: "lw_loops w l = Some lp" and p: "el_poller lp = Some p"
    and w': "lw_loops w' = lw_loops w" "cw_channels w' = (cw_channels w)(c \<mapsto> ch')"
    and ch': "ch_loop ch' = l" "ch_fd ch' = ch_fd ch"
    and tr: "io_trace w' = io_trace w @ evs"
    and evs: "\<forall>ev \<in> set evs. \<exists>op f m d r. ev = Did (EpollCtl (ep_epollfd p) op f m d) r"
    and p': "ep_epollfd p' = ep_epollfd p" "poller_inv l p' w'"
    and lp': "lp' = lp\<lparr>el_poller := Some p'\<rparr>"
  shows "loops_inv (put_loop l lp' w')"
proof -
  let ?w = "put_loop l lp' w'"
  have at: "poller_at k ?w = (if k = l then Some p' else poller_at k w)" for k
    by (simp add: poller_at_def w' lp')
  have at_l: "poller_at l w = Some p" by (simp add: poller_at_def lp p)
  have same: "poller_inv k q ?w = poller_inv k q w'" for k q by simp
  have others: "poller_inv k q w'" if k: "k \<noteq> l" and q: "poller_at k w = Some q" for k q
  proof (rule poller_inv_other [OF _ tr _ refl refl])
    show "poller_inv k q w"
      using loops_invD(1) [OF inv, of k] q by (auto simp: poller_at_def bind_eq_Some_conv)
    have "ep_epollfd q \<noteq> ep_epollfd p" using loops_invD(2) [OF inv q at_l] k by blast
    then show "\<forall>ev \<in> set evs. neutral_event (ep_epollfd q) ev" using evs by fastforce
    show "cw_channels w' d = Some dh \<longleftrightarrow> cw_channels w d = Some dh" if "ch_loop dh = k" for d dh
      using that k c l ch' by (auto simp: w')
  qed
  show ?thesis
    unfolding loops_inv_def
  proof (intro conjI allI impI)
    fix k lpk assume "lw_loops ?w k = Some lpk"
    show "\<exists>q. poller_at k ?w = Some q \<and> poller_inv k q ?w"
    proof (cases "k = l")
      case True
      then show ?thesis unfolding at same using p'(2) by simp
    next
      case False
      with \<open>lw_loops ?w k = Some lpk\<close> have "lw_loops w k = Some lpk" by (simp add: w')
      with loops_invD(1) [OF inv this] obtain q where "poller_at k w = Some q"
        by (auto simp: poller_at_def)
      then show ?thesis unfolding at same using False others by simp
    qed
  next
    fix k k' q q'
    assume "poller_at k ?w = Some q \<and> poller_at k' ?w = Some q' \<and> ep_epollfd q = ep_epollfd q'"
    then show "k = k'"
      using loops_invD(2) [OF inv] at_l p'(1) by (metis at option.inject)
  next
    fix d dh assume "cw_channels ?w d = Some dh"
    then show "lw_loops ?w (ch_loop dh) \<noteq> None"
      using loops_invD(3) [OF inv, of d] lp ch' by (auto simp: w' split: if_splits)
  next
    fix d e dh eh
    assume "cw_channels ?w d = Some dh \<and> cw_channels ?w e = Some eh \<and> ch_fd dh = ch_fd eh"
    then show "d = e"
      using loops_invD(4) [OF inv] c ch' by (auto simp: w' split: if_splits)
  qed
qed

text \<open>Distinct descriptors give the poller what its operations need.\<close>

lemma loops_inv_entries:
  assumes inv: "loops_inv w" and c: "cw_channels w c = Some ch"
    and lp: "lw_loops w (ch_loop ch) = Some lp" and p: "el_poller lp = Some p"
  shows "may_register p ch" and "own_entry p c ch"
proof -
  have pinv: "poller_inv (ch_loop ch) p w" using loops_invD(1) [OF inv lp] p by auto
  have "ep_channels p (ch_fd ch) = None \<or> ep_channels p (ch_fd ch) = Some c \<and> ch_index ch \<noteq> KNew"
  proof (cases "ep_channels p (ch_fd ch)")
    case (Some d)
    then obtain dh where dh: "cw_channels w d = Some dh" "ch_fd dh = ch_fd ch" "ch_index dh \<noteq> KNew"
      using poller_inv_map [OF pinv] by blast
    have "d = c" using loops_invD(4) [OF inv dh(1) c dh(2)] .
    with Some dh c show ?thesis by simp
  qed simp
  then show "may_register p ch" and "own_entry p c ch"
    by (simp_all add: may_register_def own_entry_def) blast+
qed

text \<open>What an operation on the mask leaves behind.\<close>

lemma change_events_result:
  assumes inv: "loops_inv w" and c: "cw_channels w c = Some ch"
    and change: "change ch = ch\<lparr>ch_events := ev\<rparr>"
  obtains w' lp q e r where "change_events change os c w = Inr w'" and "loops_inv w'"
    and "cw_channels w' = (cw_channels w)(c \<mapsto> set_index (updated_index (change ch)) (change ch))"
    and "lw_loops w (ch_loop ch) = Some lp"
    and "lw_loops w' = (lw_loops w)(ch_loop ch \<mapsto> lp\<lparr>el_poller := q\<rparr>)"
    and "lw_next w' = lw_next w" and "loop_world.more w' = loop_world.more w" and "io_tid w' = io_tid w"
    and "io_trace w' = io_trace w @ [Did (EpollCtl e (update_request (change ch)) (ch_fd ch) ev c) r]"
    and "same_epolls w w'" and "map_option ep_epollfd (poller_at (ch_loop ch) w) = Some e"
proof -
  let ?l = "ch_loop ch" and ?w = "put_channel c (change ch) w"
  obtain lp where lp: "lw_loops w ?l = Some lp" using loops_invD(3) [OF inv c] by blast
  obtain p where p: "el_poller lp = Some p" and pinv: "poller_inv ?l p w"
    using loops_invD(1) [OF inv lp] by blast
  have idx: "ch_index (change ch) \<in> {KNew, KAdded, KDeleted}"
    using poller_inv_chan [OF pinv c] by (simp add: change)
  have "cw_channels ?w c = Some (change ch)" by simp
  from poller_updateChannel_result [OF this idx, of os p]
  obtain p' w' r where u: "poller_updateChannel os c p ?w = Inr (p', w')"
      "p' = (if ch_index (change ch) = KNew then p\<lparr>ep_channels := (ep_channels p)(ch_fd (change ch) \<mapsto> c)\<rparr> else p)"
      "cw_channels w' = (cw_channels ?w)(c \<mapsto> set_index (updated_index (change ch)) (change ch))"
      "io_trace w' = io_trace ?w @ [Did (EpollCtl (ep_epollfd p) (update_request (change ch))
         (ch_fd (change ch)) (ch_events (change ch)) c) r]"
      "io_tid w' = io_tid ?w" "chan_world.more w' = chan_world.more ?w"
    by blast
  have pinv': "poller_inv ?l p' w'"
    using poller_updateChannel_inv [OF pinv c refl loops_inv_entries(1) [OF inv c lp p]] u(1) change
    by simp
  have more: "lw_loops w' = lw_loops w" "lw_next w' = lw_next w"
      "loop_world.more w' = loop_world.more w"
    using u(6) by (simp_all add: loop_more)
  have chans: "cw_channels w' = (cw_channels w)(c \<mapsto> set_index (updated_index (change ch)) (change ch))"
    and tr: "io_trace w' = io_trace w @ [Did (EpollCtl (ep_epollfd p) (update_request (change ch))
         (ch_fd (change ch)) (ch_events (change ch)) c) r]"
    using u(3,4) by simp_all
  have fd: "ep_epollfd p' = ep_epollfd p" using u(2) by simp
  have ch': "ch_loop (set_index (updated_index (change ch)) (change ch)) = ?l"
      "ch_fd (set_index (updated_index (change ch)) (change ch)) = ch_fd ch"
    by (simp_all add: set_index_def change)
  have "loops_inv (put_loop ?l (lp\<lparr>el_poller := Some p'\<rparr>) w')"
    by (rule loops_inv_step [OF inv c refl lp p more(1) chans ch' tr _ fd pinv' refl]) simp
  moreover have "change_events change os c w = Inr (put_loop ?l (lp\<lparr>el_poller := Some p'\<rparr>) w')"
    using c lp p u(1) by (simp add: change_events_def loop_updateChannel_def)
  moreover have "same_epolls w (put_loop ?l (lp\<lparr>el_poller := Some p'\<rparr>) w')"
    using lp p fd more(1) by (simp add: same_epolls_def poller_at_def)
  ultimately show ?thesis
    using that [of "put_loop ?l (lp\<lparr>el_poller := Some p'\<rparr>) w'" lp "Some p'" "ep_epollfd p" r]
      lp p more chans tr u(5) change by (simp add: poller_at_def)
qed

lemma channel_remove_result:
  assumes inv: "loops_inv w" and c: "cw_channels w c = Some ch"
  obtains w' lp q evs where "channel_remove os c w = Inr w'" and "loops_inv w'"
    and "cw_channels w' = (cw_channels w)(c \<mapsto> set_index KNew ch)"
    and "lw_loops w (ch_loop ch) = Some lp"
    and "lw_loops w' = (lw_loops w)(ch_loop ch \<mapsto> lp\<lparr>el_poller := q\<rparr>)"
    and "lw_next w' = lw_next w" and "loop_world.more w' = loop_world.more w" and "io_tid w' = io_tid w"
    and "io_trace w' = io_trace w @ evs"
    and "\<forall>ev \<in> set evs. \<exists>e op f m d r. ev = Did (EpollCtl e op f m d) r"
    and "same_epolls w w'"
proof -
  let ?l = "ch_loop ch"
  obtain lp where lp: "lw_loops w ?l = Some lp" using loops_invD(3) [OF inv c] by blast
  obtain p where p: "el_poller lp = Some p" and pinv: "poller_inv ?l p w"
    using loops_invD(1) [OF inv lp] by blast
  note own = loops_inv_entries(2) [OF inv c lp p]
  let ?p = "p\<lparr>ep_channels := (ep_channels p)(ch_fd ch := None)\<rparr>"
  obtain w' where u: "poller_removeChannel os c p w = Inr (?p, w')"
      "cw_channels w' = (cw_channels w)(c \<mapsto> set_index KNew ch)"
      "io_trace w' = io_trace w \<and> ch_index ch \<noteq> KAdded \<or>
      (\<exists>r. io_trace w' = io_trace w @ [Did (EpollCtl (ep_epollfd p) CTL_DEL (ch_fd ch) (ch_events ch) c) r])
        \<and> ch_index ch = KAdded"
      "io_tid w' = io_tid w" "chan_world.more w' = chan_world.more w"
    by (rule poller_removeChannel_run [OF pinv c refl own, of os])
  then obtain evs where evs: "io_trace w' = io_trace w @ evs"
      "\<forall>ev \<in> set evs. \<exists>op f m d r. ev = Did (EpollCtl (ep_epollfd p) op f m d) r"
    by (metis append_Nil2 empty_iff list.set(1) set_ConsD)
  have "loops_inv (put_loop ?l (lp\<lparr>el_poller := Some ?p\<rparr>) w')"
    by (rule loops_inv_step [OF inv c refl lp p _ u(2) _ _ evs _
          poller_removeChannel_inv(1) [OF pinv c refl own u(1)] refl])
      (use u(5) in \<open>simp_all add: loop_more set_index_def\<close>)
  moreover have "channel_remove os c w = Inr (put_loop ?l (lp\<lparr>el_poller := Some ?p\<rparr>) w')"
    using c lp p u(1) by (simp add: channel_remove_def loop_removeChannel_def)
  moreover have "\<forall>ev \<in> set evs. \<exists>e op f m d r. ev = Did (EpollCtl e op f m d) r"
    using evs(2) by blast
  moreover have "same_epolls w (put_loop ?l (lp\<lparr>el_poller := Some ?p\<rparr>) w')"
    using lp p u(5) by (simp add: same_epolls_def poller_at_def loop_more)
  ultimately show ?thesis
    using that [of "put_loop ?l (lp\<lparr>el_poller := Some ?p\<rparr>) w'" lp "Some ?p" evs] lp u(2,4,5) evs(1)
    by (simp add: loop_more)
qed

section \<open>Sequences of channel operations\<close>

datatype channel_op =
  EnableReading | DisableReading | EnableWriting | DisableWriting | DisableAll | Remove

fun run_channel_op ::
    "os \<Rightarrow> channel_op \<Rightarrow> chan_ptr \<Rightarrow> 'a loop_world_scheme \<Rightarrow> cpp_error + 'a loop_world_scheme" where
  "run_channel_op os EnableReading c w = enableReading os c w"
| "run_channel_op os DisableReading c w = disableReading os c w"
| "run_channel_op os EnableWriting c w = enableWriting os c w"
| "run_channel_op os DisableWriting c w = disableWriting os c w"
| "run_channel_op os DisableAll c w = disableAll os c w"
| "run_channel_op os Remove c w = channel_remove os c w"

lemma change_events_ex:
  assumes "loops_inv w" and "cw_channels w c = Some ch" and "change ch = ch\<lparr>ch_events := ev\<rparr>"
  shows "\<exists>w'. change_events change os c w = Inr w' \<and> loops_inv w' \<and>
      (\<exists>ch'. cw_channels w' = (cw_channels w)(c \<mapsto> ch'))"
  using change_events_result [where change = change, OF assms, of os] by blast

lemma run_channel_op_result:
  assumes "loops_inv w" and "cw_channels w c = Some ch"
  shows "\<exists>w' ch'. run_channel_op os op c w = Inr w' \<and> loops_inv w' \<and>
      cw_channels w' = (cw_channels w)(c \<mapsto> ch')"
proof (cases op)
  case Remove
  then show ?thesis using channel_remove_result [OF assms, of os] by (metis run_channel_op.simps(6))
qed (simp_all add: enableReading_def disableReading_def enableWriting_def disableWriting_def
      disableAll_def change_events_ex [where change = add_read, OF assms add_read_def]
      change_events_ex [where change = del_read, OF assms del_read_def]
      change_events_ex [where change = add_write, OF assms add_write_def]
      change_events_ex [where change = del_write, OF assms del_write_def]
      change_events_ex [where change = del_all, OF assms del_all_def])

lemma channel_ops_result:
  assumes "loops_inv w" and "\<forall>(op, c) \<in> set ops. c \<in> dom (cw_channels w)"
  shows "\<exists>w'. foldE (\<lambda>(op, c). run_channel_op os op c) ops w = Inr w' \<and> loops_inv w' \<and>
      dom (cw_channels w') = dom (cw_channels w)"
  using assms
proof (induction ops arbitrary: w)
  case Nil
  then show ?case by simp
next
  case (Cons opc ops)
  obtain op c where opc: "opc = (op, c)" by (cases opc)
  with Cons.prems obtain ch where "cw_channels w c = Some ch" by auto
  then obtain v ch' where v: "run_channel_op os op c w = Inr v" "loops_inv v"
      "cw_channels v = (cw_channels w)(c \<mapsto> ch')"
    using run_channel_op_result [OF Cons.prems(1)] by blast
  have dom: "dom (cw_channels v) = dom (cw_channels w)"
    using v(3) \<open>cw_channels w c = Some ch\<close> by auto
  with Cons.prems(2) have "\<forall>(op, c) \<in> set ops. c \<in> dom (cw_channels v)" by auto
  from Cons.IH [OF v(2) this] dom show ?case by (simp add: opc v(1))
qed

end
