(* ===== verification/Loop_Lifecycle.thy ===== *)
theory Loop_Lifecycle
  imports Loop_Invariant
begin

text \<open>
  The life of a loop: construction establishes \<open>loops_inv\<close>, and every change that leaves the
  registrations alone keeps it. At the end, the properties of a loop and its channels.
\<close>

section \<open>Changes that keep the invariant\<close>

text \<open>What the invariant reads of a channel.\<close>

definition registration :: "channel \<Rightarrow> loop_ptr \<times> int \<times> 32 word \<times> int" where
  "registration ch = (ch_loop ch, ch_fd ch, ch_events ch, ch_index ch)"

definition same_registrations :: "(chan_ptr \<rightharpoonup> channel) \<Rightarrow> (chan_ptr \<rightharpoonup> channel) \<Rightarrow> bool" where
  "same_registrations cs cs' \<longleftrightarrow>
     (\<forall>c. map_option registration (cs' c) = map_option registration (cs c))"

definition same_pollers :: "'a loop_world_scheme \<Rightarrow> 'a loop_world_scheme \<Rightarrow> bool" where
  "same_pollers w w' \<longleftrightarrow>
     (\<forall>l. map_option el_poller (lw_loops w' l) = map_option el_poller (lw_loops w l))"

lemma same_registrations_Some:
  assumes "same_registrations cs cs'" and "cs' c = Some ch'"
  obtains ch where "cs c = Some ch" and "ch_loop ch = ch_loop ch'" and "ch_fd ch = ch_fd ch'"
    and "ch_events ch = ch_events ch'" and "ch_index ch = ch_index ch'"
proof -
  from assms have "map_option registration (cs c) = Some (registration ch')"
    unfolding same_registrations_def by (metis option.map(2))
  then show ?thesis using that by (auto simp: registration_def)
qed

lemma same_registrations_refl [simp]: "same_registrations cs cs"
  by (simp add: same_registrations_def)

lemma same_registrations_sym: "same_registrations a b \<Longrightarrow> same_registrations b a"
  by (simp add: same_registrations_def)

lemma registration_set_revents:
  "map_option registration (map_option (set_revents r) x) = map_option registration x"
  by (cases x) (simp_all add: registration_def set_revents_def)

lemma poller_inv_frame:
  assumes inv: "poller_inv l p w" and tr: "io_trace w' = io_trace w @ evs"
    and neutral: "\<forall>ev \<in> set evs. neutral_event (ep_epollfd p) ev"
    and cs: "same_registrations (cw_channels w) (cw_channels w')"
  shows "poller_inv l p w'"
proof (rule poller_invI)
  note n = neutral_trace [OF neutral]
  show "legal_trace (ep_epollfd p) (io_trace w')"
    using poller_inv_legal [OF inv] by (simp add: tr n)
  show "\<exists>ch. cw_channels w' c = Some ch \<and> ch_loop ch = l \<and> ch_fd ch = f \<and> ch_index ch \<noteq> KNew"
    if "ep_channels p f = Some c" for f c
    using poller_inv_map [OF inv that] same_registrations_Some [OF same_registrations_sym [OF cs]]
    by metis
  show "interest (ep_epollfd p) (io_trace w') f \<noteq> None \<Longrightarrow> ep_channels p f \<noteq> None" for f
    using poller_inv_interest [OF inv, of f] by (simp add: tr n)
  fix c ch'
  assume "cw_channels w' c = Some ch'" and l: "ch_loop ch' = l"
  with same_registrations_Some [OF cs] obtain ch where ch: "cw_channels w c = Some ch"
      "ch_loop ch = ch_loop ch'" "ch_fd ch = ch_fd ch'" "ch_events ch = ch_events ch'"
      "ch_index ch = ch_index ch'"
    by metis
  then show "ch_index ch' \<in> {KNew, KAdded, KDeleted} \<and>
      (ch_index ch' \<noteq> KNew \<longrightarrow> ep_channels p (ch_fd ch') = Some c) \<and>
      (ch_index ch' = KAdded \<longrightarrow>
         interest (ep_epollfd p) (io_trace w') (ch_fd ch') = Some (ch_events ch', c)) \<and>
      (ch_index ch' = KDeleted \<longrightarrow> interest (ep_epollfd p) (io_trace w') (ch_fd ch') = None)"
    using poller_inv_chan [OF inv ch(1)] l by (simp add: tr n)
qed

lemma poller_at_cong:
  "same_pollers w w' \<Longrightarrow> poller_at l w' = poller_at l w"
proof -
  assume "same_pollers w w'"
  then have "map_option el_poller (lw_loops w' l) = map_option el_poller (lw_loops w l)"
    by (simp add: same_pollers_def)
  then show ?thesis by (cases "lw_loops w l"; cases "lw_loops w' l") (simp_all add: poller_at_def)
qed

lemma loops_inv_frame:
  assumes inv: "loops_inv w" and ps: "same_pollers w w'"
    and cs: "same_registrations (cw_channels w) (cw_channels w')"
    and tr: "io_trace w' = io_trace w @ evs" and neutral: "\<forall>ev \<in> set evs. \<forall>e. neutral_event e ev"
  shows "loops_inv w'"
proof -
  have dom: "lw_loops w' l = None \<longleftrightarrow> lw_loops w l = None" for l
    using ps unfolding same_pollers_def by (metis map_option_is_None)
  show ?thesis
    unfolding loops_inv_def poller_at_cong [OF ps]
  proof (intro conjI allI impI)
    fix l lp assume "lw_loops w' l = Some lp"
    then obtain lp0 where "lw_loops w l = Some lp0" using dom [of l] by auto
    with loops_invD(1) [OF inv this] show "\<exists>p. poller_at l w = Some p \<and> poller_inv l p w'"
      using poller_inv_frame [OF _ tr _ cs] neutral by (fastforce simp: poller_at_def)
  next
    show "poller_at l w = Some p \<and> poller_at l' w = Some p' \<and> ep_epollfd p = ep_epollfd p' \<Longrightarrow> l = l'"
      for l l' p p' using loops_invD(2) [OF inv] by blast
  next
    fix c ch assume "cw_channels w' c = Some ch"
    with same_registrations_Some [OF cs] obtain ch0
      where "cw_channels w c = Some ch0" "ch_loop ch0 = ch_loop ch" by metis
    with loops_invD(3) [OF inv this(1)] dom show "lw_loops w' (ch_loop ch) \<noteq> None" by auto
  next
    fix c d ch dh
    assume a: "cw_channels w' c = Some ch \<and> cw_channels w' d = Some dh \<and> ch_fd ch = ch_fd dh"
    obtain ch0 where "cw_channels w c = Some ch0" "ch_fd ch0 = ch_fd ch"
      using a same_registrations_Some [OF cs] by metis
    moreover obtain dh0 where "cw_channels w d = Some dh0" "ch_fd dh0 = ch_fd dh"
      using a same_registrations_Some [OF cs] by metis
    ultimately show "c = d" using a loops_invD(4) [OF inv] by metis
  qed
qed

text \<open>A new channel that no poller knows yet.\<close>

lemma poller_inv_new_channel:
  assumes inv: "poller_inv l p w" and tr: "io_trace w' = io_trace w @ evs"
    and neutral: "\<forall>ev \<in> set evs. neutral_event (ep_epollfd p) ev"
    and c: "cw_channels w c = None" and w': "cw_channels w' = (cw_channels w)(c \<mapsto> ch)"
    and new: "ch_index ch = KNew"
  shows "poller_inv l p w'"
proof (rule poller_invI)
  note n = neutral_trace [OF neutral]
  show "legal_trace (ep_epollfd p) (io_trace w')"
    using poller_inv_legal [OF inv] by (simp add: tr n)
  show "\<exists>dh. cw_channels w' d = Some dh \<and> ch_loop dh = l \<and> ch_fd dh = f \<and> ch_index dh \<noteq> KNew"
    if "ep_channels p f = Some d" for f d
    using poller_inv_map [OF inv that] c by (auto simp: w')
  show "interest (ep_epollfd p) (io_trace w') f \<noteq> None \<Longrightarrow> ep_channels p f \<noteq> None" for f
    using poller_inv_interest [OF inv, of f] by (simp add: tr n)
  show "ch_index dh \<in> {KNew, KAdded, KDeleted} \<and>
      (ch_index dh \<noteq> KNew \<longrightarrow> ep_channels p (ch_fd dh) = Some d) \<and>
      (ch_index dh = KAdded \<longrightarrow>
         interest (ep_epollfd p) (io_trace w') (ch_fd dh) = Some (ch_events dh, d)) \<and>
      (ch_index dh = KDeleted \<longrightarrow> interest (ep_epollfd p) (io_trace w') (ch_fd dh) = None)"
    if "cw_channels w' d = Some dh" and "ch_loop dh = l" for d dh
    using that poller_inv_chan [OF inv, of d dh] new
    by (cases "d = c") (simp_all add: w' tr n index_defs)
qed

lemma loops_inv_new_channel:
  assumes inv: "loops_inv w" and c: "cw_channels w c = None"
    and loops: "same_pollers w w'" and w': "cw_channels w' = (cw_channels w)(c \<mapsto> ch)"
    and new: "ch_index ch = KNew" and l: "lw_loops w (ch_loop ch) \<noteq> None"
    and fd: "\<And>d dh. cw_channels w d = Some dh \<Longrightarrow> ch_fd dh \<noteq> ch_fd ch"
    and tr: "io_trace w' = io_trace w @ evs" and neutral: "\<forall>ev \<in> set evs. \<forall>e. neutral_event e ev"
  shows "loops_inv w'"
proof -
  have dom: "lw_loops w' k = None \<longleftrightarrow> lw_loops w k = None" for k
    using loops unfolding same_pollers_def by (metis map_option_is_None)
  show ?thesis
    unfolding loops_inv_def poller_at_cong [OF loops]
  proof (intro conjI allI impI)
    fix k lp assume "lw_loops w' k = Some lp"
    then obtain lp0 where "lw_loops w k = Some lp0" using dom [of k] by auto
    with loops_invD(1) [OF inv this] show "\<exists>p. poller_at k w = Some p \<and> poller_inv k p w'"
      using poller_inv_new_channel [OF _ tr _ c w' new] neutral by (fastforce simp: poller_at_def)
  next
    show "poller_at k w = Some p \<and> poller_at k' w = Some p' \<and> ep_epollfd p = ep_epollfd p' \<Longrightarrow> k = k'"
      for k k' p p' using loops_invD(2) [OF inv] by blast
  next
    show "lw_loops w' (ch_loop dh) \<noteq> None" if "cw_channels w' d = Some dh" for d dh
      using that loops_invD(3) [OF inv, of d] l dom by (auto simp: w' split: if_splits)
  next
    show "d = e" if "cw_channels w' d = Some dh \<and> cw_channels w' e = Some eh \<and> ch_fd dh = ch_fd eh"
      for d e dh eh
      using that loops_invD(4) [OF inv, of d dh e eh] fd by (fastforce simp: w' split: if_splits)
  qed
qed

text \<open>A new loop, with a poller that is empty.\<close>

definition fresh_epoll :: "int \<Rightarrow> 'a loop_world_scheme \<Rightarrow> bool" where
  "fresh_epoll e w \<longleftrightarrow> (\<forall>l p. poller_at l w = Some p \<longrightarrow> ep_epollfd p \<noteq> e) \<and>
     interest e (io_trace w) = Map.empty \<and> legal_trace e (io_trace w)"

definition fresh_fd :: "int \<Rightarrow> 'a loop_world_scheme \<Rightarrow> bool" where
  "fresh_fd f w \<longleftrightarrow> (\<forall>c ch. cw_channels w c = Some ch \<longrightarrow> ch_fd ch \<noteq> f)"

lemma loops_inv_new_loop:
  assumes inv: "loops_inv w" and l: "lw_loops w l = None"
    and w': "lw_loops w' = (lw_loops w)(l \<mapsto> lp)" "cw_channels w' = cw_channels w"
      "io_trace w' = io_trace w"
    and p: "el_poller lp = Some p" "ep_channels p = Map.empty" and e: "fresh_epoll (ep_epollfd p) w"
  shows "loops_inv w'"
proof -
  have at: "poller_at k w' = (if k = l then Some p else poller_at k w)" for k
    by (simp add: poller_at_def w' p)
  have same: "poller_inv k q w' = poller_inv k q w" for k q
    by (simp add: poller_inv_def w')
  have none: "ch_loop ch \<noteq> l" if "cw_channels w c = Some ch" for c ch
    using loops_invD(3) [OF inv that] l by auto
  have new: "poller_inv l p w"
    using e none by (intro poller_invI) (auto simp: fresh_epoll_def p)
  show ?thesis
    unfolding loops_inv_def
  proof (intro conjI allI impI)
    show "\<exists>q. poller_at k w' = Some q \<and> poller_inv k q w'" if k: "lw_loops w' k = Some lpk" for k lpk
    proof (cases "k = l")
      case True
      then show ?thesis unfolding at same using new by simp
    next
      case False
      then show ?thesis
        unfolding at same using k loops_invD(1) [OF inv, of k] by (simp add: w' poller_at_def)
    qed
    show "k = k'" if "poller_at k w' = Some q \<and> poller_at k' w' = Some q' \<and> ep_epollfd q = ep_epollfd q'"
      for k k' q q'
      using that loops_invD(2) [OF inv] e unfolding fresh_epoll_def by (metis at option.inject)
    show "lw_loops w' (ch_loop ch) \<noteq> None" if "cw_channels w' c = Some ch" for c ch
      using that loops_invD(3) [OF inv, of c] by (auto simp: w')
    show "c = d" if "cw_channels w' c = Some ch \<and> cw_channels w' d = Some dh \<and> ch_fd ch = ch_fd dh"
      for c d ch dh
      using that loops_invD(4) [OF inv] by (auto simp: w')
  qed
qed

section \<open>Construction\<close>

lemma sys_open_neutral:
  assumes "sys_open os oc w = (f, w')"
  obtains ev where "io_trace w' = io_trace w @ [ev]" and "\<And>e. neutral_event e ev"
    and "io_step w w'" and "cw_channels w' = cw_channels w"
    and "chan_world.more w' = chan_world.more w" and "io_tid w' = io_tid w"
  using assms sys_step(4) [OF assms]
  by (cases rule: sys_open_cases [of os oc w]) (auto simp: io_step_def)

lemma newDefaultPoller_result:
  assumes "newDefaultPoller False os w = (Some p, w')"
  obtains evs where "io_trace w' = io_trace w @ evs" and "\<forall>ev \<in> set evs. \<forall>e. neutral_event e ev"
    and "cw_channels w' = cw_channels w" and "chan_world.more w' = chan_world.more w"
    and "io_tid w' = io_tid w" and "ep_channels p = Map.empty"
    and "ep_events p = replicate KInitEventListSize (0, 0)"
proof -
  obtain e v where v: "sys_open os EpollCreate w = (e, v)" by fastforce
  from v obtain ev where ev: "io_trace v = io_trace w @ [ev]" "\<And>e. neutral_event e ev"
      "cw_channels v = cw_channels w" "chan_world.more v = chan_world.more w" "io_tid v = io_tid w"
    by (rule sys_open_neutral) blast
  from assms v have "ep_channels p = Map.empty" "ep_events p = replicate KInitEventListSize (0, 0)"
      "w' = v \<or> (\<exists>lv m. w' = note_log lv m v)"
    by (auto simp: newDefaultPoller_def EpollPoller_new_def split: if_splits)
  with ev show ?thesis by (intro that [of "[ev]"]) auto
qed

lemma createEventfd_result:
  assumes "createEventfd os w = (f, w')"
  obtains evs where "io_trace w' = io_trace w @ evs" and "\<forall>ev \<in> set evs. \<forall>e. neutral_event e ev"
    and "cw_channels w' = cw_channels w" and "chan_world.more w' = chan_world.more w"
    and "io_tid w' = io_tid w"
proof -
  obtain v where v: "sys_open os EventFd w = (f, v)"
    using assms by (auto simp: createEventfd_def split: prod.splits)
  from v obtain ev where ev: "io_trace v = io_trace w @ [ev]" "\<And>e. neutral_event e ev"
      "cw_channels v = cw_channels w" "chan_world.more v = chan_world.more w" "io_tid v = io_tid w"
    by (rule sys_open_neutral) blast
  from assms v have "w' = v \<or> (\<exists>lv m. w' = note_log lv m v)"
    by (auto simp: createEventfd_def split: if_splits)
  with ev show ?thesis by (intro that [of "[ev]"]) auto
qed

text \<open>The state of a loop that was just made.\<close>

definition new_loop :: "int \<Rightarrow> poller \<Rightarrow> int \<Rightarrow> chan_ptr \<Rightarrow> event_loop" where
  "new_loop t p f c =
     \<lparr>el_looping = False, el_quit = False, el_threadId = t,
      el_pollReturnTime = TimeStamp_default, el_poller = Some p, el_wakeupFd = f,
      el_wakeupChannel = c, el_activeChannels = [], el_callingPendingFunctors = False,
      el_pendingFunctors = []\<rparr>"

lemma EventLoop_new_result:
  assumes inv: "loops_inv w"
    and addr: "lw_loops w (lw_next w) = None" "cw_channels w (lw_next w + 1) = None"
    and p: "newDefaultPoller False os w = (Some p, w1)" and f: "createEventfd os w1 = (f, w2)"
    and fresh: "fresh_epoll (ep_epollfd p) w" "fresh_fd f w"
  obtains w' p' ch where "EventLoop_new False os w = Inr (lw_next w, w')" and "loops_inv w'"
    and "lw_loops w' = (lw_loops w)(lw_next w \<mapsto> new_loop (io_tid w) p' f (lw_next w + 1))"
    and "cw_channels w' = (cw_channels w)(lw_next w + 1 \<mapsto> ch)"
    and "ch_ReadCallBack ch = Some (LoopWakeup (lw_next w))" and "\<not> ch_tied ch"
    and "isReading ch" and "ch_index ch = KAdded" and "ch_fd ch = f" and "ch_loop ch = lw_next w"
    and "io_tid w' = io_tid w" and "lw_next w' = lw_next w + 2"
    and "loop_world.more w' = loop_world.more w" and "ep_epollfd p' = ep_epollfd p"
    and "\<exists>op m r. io_trace w' = io_trace w2 @ [Did (EpollCtl (ep_epollfd p) op f m (lw_next w + 1)) r]"
proof -
  let ?l = "lw_next w" and ?c = "lw_next w + 1"
  let ?lp = "new_loop (io_tid w) p f ?c"
  from p obtain ev1 where 1: "io_trace w1 = io_trace w @ ev1" "\<forall>ev \<in> set ev1. \<forall>e. neutral_event e ev"
      "cw_channels w1 = cw_channels w" "chan_world.more w1 = chan_world.more w" "io_tid w1 = io_tid w"
      "ep_channels p = Map.empty"
    by (rule newDefaultPoller_result) blast
  from f obtain ev2 where 2: "io_trace w2 = io_trace w1 @ ev2" "\<forall>ev \<in> set ev2. \<forall>e. neutral_event e ev"
      "cw_channels w2 = cw_channels w1" "chan_world.more w2 = chan_world.more w1" "io_tid w2 = io_tid w1"
    by (rule createEventfd_result) blast
  have neutral: "\<forall>ev \<in> set (ev1 @ ev2). \<forall>e. neutral_event e ev" using 1(2) 2(2) by auto
  have tr: "io_trace w2 = io_trace w @ (ev1 @ ev2)" by (simp add: 1 2)
  have loops: "lw_loops w2 = lw_loops w" "lw_next w2 = lw_next w"
      "loop_world.more w2 = loop_world.more w"
    using 1(4) 2(4) by (simp_all add: loop_more)
  let ?wa = "put_loop ?l ?lp (w2\<lparr>lw_next := ?l + 2\<rparr>)"
  have inv2: "loops_inv w2"
    by (rule loops_inv_frame [OF inv _ _ tr neutral]) (simp_all add: same_pollers_def loops 1 2)
  have e2: "fresh_epoll (ep_epollfd p) w2"
  proof -
    have n: "\<forall>ev \<in> set (ev1 @ ev2). neutral_event (ep_epollfd p) ev" using neutral by blast
    show ?thesis
      using fresh(1) by (simp add: fresh_epoll_def tr neutral_trace [OF n] poller_at_def loops)
  qed
  have inva: "loops_inv ?wa"
    by (rule loops_inv_new_loop [OF inv2 _ _ _ _ _ 1(6) e2, where l = ?l and lp = ?lp])
      (simp_all add: addr loops new_loop_def)
  let ?wb = "put_loop ?l ?lp (put_channel ?c (Channel_new ?l f) (w2\<lparr>lw_next := lw_next w2 + 2\<rparr>))"
  have invb: "loops_inv ?wb"
    by (rule loops_inv_new_channel [OF inva, where evs = "[]" and c = ?c and ch = "Channel_new ?l f"])
      (use addr fresh(2) in \<open>auto simp: 1 2 same_pollers_def Channel_new_def index_defs fresh_fd_def\<close>)
  let ?wc = "if lw_loopInThisThread ?wb (io_tid ?wb) \<noteq> None
     then note_log FATAL ''Another EventLoop %p exists in this thread %d'' ?wb
     else ?wb\<lparr>lw_loopInThisThread := (lw_loopInThisThread ?wb)(io_tid ?wb \<mapsto> ?l)\<rparr>"
  let ?wd = "put_channel ?c (setReadCallback (LoopWakeup ?l) (Channel_new ?l f)) ?wc"
  have invd: "loops_inv ?wd"
    by (rule loops_inv_frame [OF invb, where evs = "[]"])
      (simp_all add: same_pollers_def same_registrations_def registration_def setReadCallback_def)
  have c: "cw_channels ?wd ?c = Some (setReadCallback (LoopWakeup ?l) (Channel_new ?l f))" by simp
  obtain w' lp q e r where w': "change_events add_read os ?c ?wd = Inr w'" "loops_inv w'"
      "cw_channels w' = (cw_channels ?wd)(?c \<mapsto> set_index
         (updated_index (add_read (setReadCallback (LoopWakeup ?l) (Channel_new ?l f))))
         (add_read (setReadCallback (LoopWakeup ?l) (Channel_new ?l f))))"
      "lw_loops ?wd ?l = Some lp" "lw_loops w' = (lw_loops ?wd)(?l \<mapsto> lp\<lparr>el_poller := q\<rparr>)"
      "io_tid w' = io_tid ?wd" "lw_next w' = lw_next ?wd" "loop_world.more w' = loop_world.more ?wd"
      "io_trace w' = io_trace ?wd @ [Did (EpollCtl e (update_request (add_read (setReadCallback
         (LoopWakeup ?l) (Channel_new ?l f)))) f
         (ch_events (add_read (setReadCallback (LoopWakeup ?l) (Channel_new ?l f)))) ?c) r]"
      "same_epolls ?wd w'" "map_option ep_epollfd (poller_at ?l ?wd) = Some e"
    by (rule change_events_result [where change = add_read, OF invd c add_read_def, of os])
      (simp_all add: setReadCallback_def Channel_new_def add_read_def)
  have lp: "lp = ?lp" using w'(4) by (simp split: if_splits)
  then have loops': "lw_loops w' = (lw_loops w)(?l \<mapsto> ?lp\<lparr>el_poller := q\<rparr>)"
    using w'(5) by (simp add: loops)
  then obtain p' where p': "q = Some p'" using loops_invD(1) [OF w'(2), of ?l] by auto
  have at: "poller_at ?l ?wd = Some p" by (simp add: poller_at_def new_loop_def)
  have "poller_at ?l w' = Some p'" using loops' p' by (simp add: poller_at_def)
  then have same_fd: "ep_epollfd p' = ep_epollfd p" using w'(10) at unfolding same_epolls_def by (metis option.map(2) option.inject)
  have e: "e = ep_epollfd p" using w'(11) at by simp
  from p' loops' have loops'': "lw_loops w' = (lw_loops w)(?l \<mapsto> new_loop (io_tid w) p' f ?c)"
    by (simp add: new_loop_def)
  have run: "EventLoop_new False os w = Inr (?l, w')"
    unfolding EventLoop_new_def p f prod.case Let_def enableReading_def
    using w'(1) by (simp add: new_loop_def loops 1 2 cong: if_cong)
  show ?thesis
    by (rule that [OF run w'(2) loops''])
      (use w'(3,6-9) same_fd e in \<open>auto simp: 1 2 loops updated_index_def set_index_def setReadCallback_def
        Channel_new_def index_defs add_read_def isReading_def KReadEvent_def epoll_bits\<close>)
qed

section \<open>Polling\<close>

lemma loop_poll_result:
  assumes inv: "loops_inv w" and lp: "lw_loops w l = Some lp" and os: "reports_registered os"
  obtains w' lp' where "loop_poll os l w = Inr w'" and "loops_inv w'" and "lw_loops w' l = Some lp'"
    and "el_pendingFunctors lp' = el_pendingFunctors lp"
    and "\<forall>c \<in> set (el_activeChannels lp'). \<exists>ch. cw_channels w' c = Some ch \<and> ch_loop ch = l \<and>
        ch_index ch = KAdded"
    and "same_registrations (cw_channels w) (cw_channels w')" and "io_trace w' = io_trace w"
    and "loop_world.more w' = loop_world.more w" and "dom (lw_loops w') = dom (lw_loops w)"
    and "lw_next w' = lw_next w" and "same_epolls w w'"
proof -
  obtain p where p: "el_poller lp = Some p" and pinv: "poller_inv l p w"
    using loops_invD(1) [OF inv lp] by blast
  obtain now and evs :: "(chan_ptr \<times> 32 word) list" and p' w' where
      poll: "poller_poll os KPollTimeMs p [] w = Inr (now, [] @ map fst evs, p', w')"
      and p': "poller_inv l p' w'" "ep_epollfd p' = ep_epollfd p" "ep_channels p' = ep_channels p"
      and same: "same_but_revents (cw_channels w) (cw_channels w')"
      and evs: "\<forall>(c, ev) \<in> set evs. \<exists>ch. cw_channels w c = Some ch \<and> ch_loop ch = l \<and> ch_index ch = KAdded"
      and w': "io_trace w' = io_trace w" "io_tid w' = io_tid w" "chan_world.more w' = chan_world.more w"
    by (rule poller_poll_result [OF pinv os, of KPollTimeMs "[]"]) blast
  let ?lp = "lp\<lparr>el_poller := Some p', el_pollReturnTime := now, el_activeChannels := map fst evs\<rparr>"
  let ?w = "put_loop l ?lp w'"
  have loops: "lw_loops w' = lw_loops w" using w'(3) by (simp add: loop_more)
  have run: "loop_poll os l w = Inr ?w" using lp p poll by (simp add: loop_poll_def)
  have regs: "same_registrations (cw_channels w) (cw_channels w')"
    unfolding same_registrations_def
  proof
    fix c
    have "map_option (set_revents 0) (cw_channels w' c) = map_option (set_revents 0) (cw_channels w c)"
      using same by (simp add: same_but_revents_def)
    then show "map_option registration (cw_channels w' c) = map_option registration (cw_channels w c)"
      by (metis registration_set_revents)
  qed
  have at: "poller_at k ?w = (if k = l then Some p' else poller_at k w)" for k
    by (simp add: poller_at_def loops)
  have at_l: "poller_at l w = Some p" by (simp add: poller_at_def lp p)
  have "loops_inv ?w"
    unfolding loops_inv_def
  proof (intro conjI allI impI)
    show "\<exists>q. poller_at k ?w = Some q \<and> poller_inv k q ?w" if k: "lw_loops ?w k = Some lpk" for k lpk
    proof (cases "k = l")
      case True
      then show ?thesis unfolding at using p'(1) by simp
    next
      case False
      then obtain q where q: "poller_at k w = Some q" "poller_inv k q w"
        using k loops_invD(1) [OF inv, of k] by (auto simp: loops poller_at_def)
      have "poller_inv k q ?w"
        by (rule poller_inv_frame [OF q(2), where evs = "[]"]) (simp_all add: w' regs)
      then show ?thesis using False q unfolding at by simp
    qed
    show "k = k'" if "poller_at k ?w = Some q \<and> poller_at k' ?w = Some q' \<and> ep_epollfd q = ep_epollfd q'"
      for k k' q q'
    proof -
      have "\<exists>q0. poller_at m w = Some q0 \<and> ep_epollfd q0 = ep_epollfd r" if "poller_at m ?w = Some r" for m r
        using that at_l p'(2) unfolding at by (cases "m = l") simp_all
      then show ?thesis using that loops_invD(2) [OF inv] by metis
    qed
    show "lw_loops ?w (ch_loop ch) \<noteq> None" if c: "cw_channels ?w c = Some ch" for c ch
    proof -
      obtain ch0 where "cw_channels w c = Some ch0" "ch_loop ch0 = ch_loop ch"
        by (rule same_registrations_Some [OF regs]) (use c in simp)
      with loops_invD(3) [OF inv this(1)] show ?thesis by (auto simp: loops)
    qed
    show "c = d" if cd: "cw_channels ?w c = Some ch \<and> cw_channels ?w d = Some dh \<and> ch_fd ch = ch_fd dh"
      for c d ch dh
    proof -
      have w: "cw_channels w' c = Some ch" "cw_channels w' d = Some dh" using cd by simp_all
      obtain ch0 where ch0: "cw_channels w c = Some ch0" "ch_fd ch0 = ch_fd ch"
        by (rule same_registrations_Some [OF regs w(1)])
      obtain dh0 where dh0: "cw_channels w d = Some dh0" "ch_fd dh0 = ch_fd dh"
        by (rule same_registrations_Some [OF regs w(2)])
      show "c = d" using loops_invD(4) [OF inv ch0(1) dh0(1)] ch0(2) dh0(2) cd by simp
    qed
  qed
  moreover have "\<forall>c \<in> set (map fst evs). \<exists>ch. cw_channels ?w c = Some ch \<and> ch_loop ch = l \<and>
      ch_index ch = KAdded"
  proof
    fix c assume "c \<in> set (map fst evs)"
    then obtain ch where "cw_channels w c = Some ch" "ch_loop ch = l" "ch_index ch = KAdded"
      using evs by auto
    then show "\<exists>ch. cw_channels ?w c = Some ch \<and> ch_loop ch = l \<and> ch_index ch = KAdded"
      by (auto elim: same_but_revents_Some [OF same])
  qed
  moreover have "same_epolls w ?w" unfolding same_epolls_def at using at_l p'(2) by simp
  ultimately show ?thesis using that [OF run] regs w' lp by (auto simp: loop_more)
qed

section \<open>A concrete loop\<close>

text \<open>An empty world around \<open>x\<close>, and a system that reports descriptor \<open>f\<close> whenever it is registered.\<close>

definition lab_loops :: "'a \<Rightarrow> 'a loop_world_scheme" where
  "lab_loops x = \<lparr>io_trace = [], io_errno = 0, io_log = [], io_tid = 7, cw_channels = Map.empty,
     lw_loops = Map.empty, lw_loopInThisThread = Map.empty, lw_next = 1,
     lw_numCreated = 0, \<dots> = x\<rparr>"

definition ready_os :: "int \<Rightarrow> os" where
  "ready_os f = (lab_os [] 8)\<lparr>os_wait := (\<lambda>h e n.
     case interest e h f of None \<Rightarrow> Inr [] | Some (m, c) \<Rightarrow> Inr [(c, m)])\<rparr>"

lemma ready_os_reports: "reports_registered (ready_os f)"
  by (auto simp: reports_registered_def ready_os_def split: option.splits)

lemma lab_loops_inv: "loops_inv (lab_loops x)"
  by (simp add: lab_loops_def loops_inv_def poller_at_def)

lemma lab_loops_poller:
  "newDefaultPoller False (ready_os f) (lab_loops x) =
     (Some \<lparr>ep_epollfd = 3, ep_events = replicate KInitEventListSize (0, 0), ep_channels = Map.empty\<rparr>,
      note_event (Opened EpollCreate 3) (lab_loops x))"
  by (simp add: newDefaultPoller_def EpollPoller_new_def sys_open_def ready_os_def lab_os_def lab_loops_def)

lemma lab_loops_eventfd:
  "createEventfd (ready_os f) (note_event (Opened EpollCreate 3) (lab_loops x)) =
     (4, note_event (Opened EventFd 4) (note_event (Opened EpollCreate 3) (lab_loops x)))"
  by (simp add: createEventfd_def sys_open_def ready_os_def lab_os_def lab_loops_def)

lemma lab_loops_fresh:
  "lw_next (lab_loops x) = 1" "io_tid (lab_loops x) = 7"
  "lw_loops (lab_loops x) = Map.empty" "cw_channels (lab_loops x) = Map.empty" "loop_world.more (lab_loops x) = x"
  "fresh_epoll 3 (lab_loops x)" "fresh_fd 4 (lab_loops x)"
  by (simp_all add: lab_loops_def fresh_epoll_def fresh_fd_def poller_at_def interest_def legal_trace_def)

lemma lab_loop_new:
  obtains w lp ch where "EventLoop_new False (ready_os f) (lab_loops x) = Inr (1, w)" and "loops_inv w"
    and "lw_loops w = [1 \<mapsto> lp]" and "cw_channels w = [2 \<mapsto> ch]"
    and "el_threadId lp = 7" and "io_tid w = 7" and "el_pendingFunctors lp = []"
    and "\<not> el_callingPendingFunctors lp" and "el_wakeupFd lp = 4" and "ch_fd ch = 4"
    and "lw_next w = 3" and "loop_world.more w = x"
proof -
  have addr: "lw_loops (lab_loops x) (lw_next (lab_loops x)) = None"
      "cw_channels (lab_loops x) (lw_next (lab_loops x) + 1) = None"
    by (simp_all add: lab_loops_fresh)
  obtain w p ch where run: "EventLoop_new False (ready_os f) (lab_loops x) = Inr (lw_next (lab_loops x), w)"
      and w: "loops_inv w"
      "lw_loops w = (lw_loops (lab_loops x))(lw_next (lab_loops x) \<mapsto>
         new_loop (io_tid (lab_loops x)) p 4 (lw_next (lab_loops x) + 1))"
      "io_tid w = io_tid (lab_loops x)" "ch_fd ch = 4"
      "cw_channels w = (cw_channels (lab_loops x))(lw_next (lab_loops x) + 1 \<mapsto> ch)"
      "lw_next w = lw_next (lab_loops x) + 2" "loop_world.more w = loop_world.more (lab_loops x)"
    by (rule EventLoop_new_result [OF lab_loops_inv addr lab_loops_poller lab_loops_eventfd])
      (simp_all add: lab_loops_fresh)
  then show ?thesis
    using that [of w "new_loop 7 p 4 2" ch] run w
    by (simp add: lab_loops_fresh new_loop_def numeral_2_eq_2)
qed

section \<open>Properties\<close>



text \<open>
  C40. With the environment variable \<open>MUDUO_USE_POLL\<close> set, \<open>newDefaultPoller\<close> returns a null pointer,
  and the constructor of any event loop calls \<open>updateChannel\<close> through it.
\<close>

theorem EventLoop_new_use_poll:
  "EventLoop_new True os w = Inl NullDereference"
  by (auto simp: EventLoop_new_def newDefaultPoller_def enableReading_def change_events_def
      loop_updateChannel_def put_loop_def put_channel_def note_log_def setReadCallback_def
      Channel_new_def Let_def split: prod.splits)



text \<open>
  C18. A poll of a consistent loop succeeds, whatever the kernel reports of what is registered, and
  every pointer it puts into the list of active channels is a live channel of this very loop; the
  queue of tasks is untouched and the loops stay consistent.
\<close>

theorem loop_poll_live_channels:
  assumes "loops_inv w" and "lw_loops w l = Some lp" and "reports_registered os"
  shows "\<exists>w' lp'. loop_poll os l w = Inr w' \<and> loops_inv w' \<and> lw_loops w' l = Some lp' \<and>
      el_pendingFunctors lp' = el_pendingFunctors lp \<and>
      (\<forall>c \<in> set (el_activeChannels lp'). \<exists>ch. cw_channels w' c = Some ch \<and> ch_loop ch = l \<and>
         ch_index ch = KAdded)"
  by (rule loop_poll_result [OF assms]) blast

theorem loop_poll_live_channels_witness:
  "\<exists>w w' lp'. EventLoop_new False (ready_os 4) (lab_loops ()) = Inr (1, w) \<and>
     loop_poll (ready_os 4) 1 w = Inr w' \<and> lw_loops w' 1 = Some lp' \<and> el_pendingFunctors lp' = []"
proof -
  obtain w lp where w: "EventLoop_new False (ready_os 4) (lab_loops ()) = Inr (1, w)" "loops_inv w"
      "lw_loops w = [1 \<mapsto> lp]" "el_pendingFunctors lp = []"
    by (rule lab_loop_new [of 4 "()"])
  from w(3) have "lw_loops w 1 = Some lp" by simp
  from loop_poll_live_channels [OF w(2) this ready_os_reports [of 4]] w show ?thesis by auto
qed

end
