(* ===== verification/Inet_Address.thy ===== *)
theory Inet_Address
  imports System_Interface
begin

unbundle bit_operations_syntax

text \<open>
  include/inet_address.hpp and ZInetAddress/inet_address.cpp: an IPv4 address and port in network
  byte order, and their text. \<open>htons\<close> and \<open>ntohs\<close> are those of a little-endian machine,
  \<open>inet_ntop\<close> writes the four bytes of the address in memory order as decimal numbers. The parser
  \<open>inet_addr\<close> of the C library is a parameter.

  The lemmas show that the text always fits the 64 bytes it is written to, and that it identifies
  address and port.
\<close>

definition AF_INET :: int where "AF_INET = 2"

definition htons :: "16 word \<Rightarrow> 16 word" where
  "htons x = push_bit 8 x OR drop_bit 8 x"

definition ntohs :: "16 word \<Rightarrow> 16 word" where
  "ntohs x = htons x"

text \<open>Byte \<open>k\<close> of the address in memory.\<close>

definition addr_byte :: "nat \<Rightarrow> 32 word \<Rightarrow> nat" where
  "addr_byte k a = unat (drop_bit (8 * k) a AND 255)"

definition inet_ntop :: "32 word \<Rightarrow> string" where
  "inet_ntop a =
     dec (addr_byte 0 a) @ ''.'' @ dec (addr_byte 1 a) @ ''.'' @ dec (addr_byte 2 a) @ ''.'' @
     dec (addr_byte 3 a)"

definition InetAddress_new :: "(string \<Rightarrow> 32 word) \<Rightarrow> 16 word \<Rightarrow> string \<Rightarrow> sockaddr_in" where
  "InetAddress_new inet_addr port ip =
     \<lparr>sin_family = AF_INET, sin_port = htons port, sin_addr = inet_addr ip\<rparr>"

definition toIp :: "sockaddr_in \<Rightarrow> string" where
  "toIp a = inet_ntop (sin_addr a)"

text \<open>The port is appended by an unbounded \<open>sprintf\<close> behind the address in the same 64 bytes.\<close>

definition toInPort :: "sockaddr_in \<Rightarrow> cpp_error + string" where
  "toInPort a =
     (let text = inet_ntop (sin_addr a) @ '':'' @ dec (unat (ntohs (sin_port a)))
      in if length text < 64 then Inr text else Inl OutOfBounds)"

definition toPort :: "sockaddr_in \<Rightarrow> 16 word" where
  "toPort a = ntohs (sin_port a)"

definition setSockAddr :: "sockaddr_in \<Rightarrow> sockaddr_in \<Rightarrow> sockaddr_in" where
  "setSockAddr addr a = addr"

section \<open>Byte order\<close>

lemma ntohs_htons [simp]: "ntohs (htons x) = x"
proof (rule bit_word_eqI)
  fix n assume "n < LENGTH(16)"
  then show "bit (ntohs (htons x)) n = bit x n"
    by (auto simp: ntohs_def htons_def bit_or_iff bit_push_bit_iff bit_drop_bit_eq
        dest: bit_imp_le_length)
qed

lemma htons_inject [simp]: "htons x = htons y \<longleftrightarrow> x = y"
  by (metis ntohs_htons)

lemma ntohs_inject [simp]: "ntohs x = ntohs y \<longleftrightarrow> x = y"
  by (simp add: ntohs_def)

section \<open>The text of an address\<close>

lemma addr_byte_bound: "addr_byte k a < 256"
proof -
  have "drop_bit (8 * k) a AND 255 \<le> 255" by (rule word_and_le1)
  then show ?thesis by (simp add: addr_byte_def word_le_nat_alt)
qed

lemma addr_bytes_inject:
  assumes "\<And>k. k < 4 \<Longrightarrow> addr_byte k a = addr_byte k b"
  shows "a = b"
proof (rule bit_word_eqI)
  fix n assume "n < LENGTH(32)"
  define k where "k = n div 8"
  have k: "k < 4" and n: "n = 8 * k + n mod 8" "n mod 8 < 8"
    using \<open>n < LENGTH(32)\<close> by (simp_all add: k_def)
  have m: "bit (255 :: 32 word) (n mod 8)"
  proof -
    have "(255 :: 32 word) = mask 8" by (simp add: mask_eq_exp_minus_1)
    moreover have "bit (mask 8 :: 32 word) (n mod 8)" using n(2) by (simp add: bit_mask_iff)
    ultimately show ?thesis by simp
  qed
  have "drop_bit (8 * k) a AND 255 = drop_bit (8 * k) b AND 255"
    using assms [OF k] by (simp add: addr_byte_def word_unat_eq_iff)
  then have "bit (drop_bit (8 * k) a AND 255) (n mod 8) = bit (drop_bit (8 * k) b AND 255) (n mod 8)"
    by simp
  with m n(1) show "bit a n = bit b n" using n(2) by (simp add: bit_and_iff bit_drop_bit_eq)
qed

lemma digit_not_separator: "CHR ''.'' \<notin> set (dec n)" "CHR '':'' \<notin> set (dec n)"
  by (auto simp: decimal_digit_def dest!: set_dec)

lemma colon_not_in_ntop: "CHR '':'' \<notin> set (inet_ntop a)"
  by (simp add: inet_ntop_def digit_not_separator)

lemma inet_ntop_inject: "inet_ntop a = inet_ntop b \<longleftrightarrow> a = b"
proof
  assume eq: "inet_ntop a = inet_ntop b"
  let ?d = "\<lambda>k x. dec (addr_byte k x)"
  have "(?d 0 a @ ''.'' @ ?d 1 a @ ''.'' @ ?d 2 a) @ CHR ''.'' # ?d 3 a =
      (?d 0 b @ ''.'' @ ?d 1 b @ ''.'' @ ?d 2 b) @ CHR ''.'' # ?d 3 b"
    using eq by (simp add: inet_ntop_def)
  from append_separator_inject [OF this]
  have 3: "?d 3 a = ?d 3 b" and
      e2: "(?d 0 a @ ''.'' @ ?d 1 a) @ CHR ''.'' # ?d 2 a = (?d 0 b @ ''.'' @ ?d 1 b) @ CHR ''.'' # ?d 2 b"
    by (simp_all add: digit_not_separator)
  from append_separator_inject [OF e2]
  have 2: "?d 2 a = ?d 2 b" and e1: "?d 0 a @ CHR ''.'' # ?d 1 a = ?d 0 b @ CHR ''.'' # ?d 1 b"
    by (simp_all add: digit_not_separator)
  from append_separator_inject [OF e1]
  have "?d 0 a = ?d 0 b" "?d 1 a = ?d 1 b" by (simp_all add: digit_not_separator)
  with 2 3 show "a = b"
    by (intro addr_bytes_inject) (auto simp: less_Suc_eq eval_nat_numeral)
qed simp

lemma length_inet_ntop: "length (inet_ntop a) \<le> 15"
  using length_dec_le [of "addr_byte 0 a" 3] length_dec_le [of "addr_byte 1 a" 3]
    length_dec_le [of "addr_byte 2 a" 3] length_dec_le [of "addr_byte 3 a" 3]
    addr_byte_bound [of 0 a] addr_byte_bound [of 1 a] addr_byte_bound [of 2 a] addr_byte_bound [of 3 a]
  by (simp add: inet_ntop_def)

lemma length_dec_port: "length (dec (unat (p :: 16 word))) \<le> 5"
  using unsigned_less [of p, where ?'a = nat] by (intro length_dec_le) simp_all

text \<open>So the \<open>sprintf\<close> stays inside its buffer.\<close>

lemma toInPort_total:
  "toInPort a = Inr (inet_ntop (sin_addr a) @ '':'' @ dec (unat (ntohs (sin_port a))))"
  using length_inet_ntop [of "sin_addr a"] length_dec_port [of "ntohs (sin_port a)"]
  by (simp add: toInPort_def)

lemma toInPort_length: "toInPort a = Inr t \<Longrightarrow> length t \<le> 21"
  using length_inet_ntop [of "sin_addr a"] length_dec_port [of "ntohs (sin_port a)"]
  by (auto simp: toInPort_total)

section \<open>Properties\<close>

text \<open>
  C38. The text of an address never overflows its 64-byte buffer, has at most 21 characters, and
  two addresses with the same text have the same IP and the same port.
\<close>

theorem toInPort_identifies:
  "\<exists>s t. toInPort a = Inr s \<and> toInPort b = Inr t \<and> length s \<le> 21 \<and>
     (s = t \<longleftrightarrow> sin_addr a = sin_addr b \<and> sin_port a = sin_port b)"
proof -
  let ?ip = "\<lambda>x. inet_ntop (sin_addr x)" and ?port = "\<lambda>x. dec (unat (ntohs (sin_port x)))"
  have "?ip a @ '':'' @ ?port a = ?ip b @ '':'' @ ?port b \<longleftrightarrow> ?ip a = ?ip b \<and> ?port a = ?port b"
    using append_separator_inject [of "?ip a" "CHR '':''" "?port a" "?ip b" "?port b"]
    by (auto simp: digit_not_separator)
  then show ?thesis
    using toInPort_length [of a]
    by (simp add: toInPort_total inet_ntop_inject flip: word_unat_eq_iff)
qed



end
