(* ===== verification/Acceptor.thy ===== *)
theory Acceptor
  imports Loop_Lifecycle Inet_Address
begin

text \<open>
  include/socket_.hpp, ZSocket/socket.cpp: the wrapper around a descriptor; include/acceptor.hpp,
  ZAcceptor/acceptor.cpp: the listening socket, its channel, and the handler that accepts. The
  callback of a new connection is the parameter \<open>on_new\<close>; \<open>ac_callback\<close> says whether it was set.
\<close>

section \<open>Sockets\<close>

definition Socket_delete :: "os \<Rightarrow> int \<Rightarrow> 'a io_state_scheme \<Rightarrow> 'a io_state_scheme" where
  "Socket_delete os sockfd w = snd (sys_call os (CloseFd sockfd) w)"

definition bindAddress :: "os \<Rightarrow> int \<Rightarrow> sockaddr_in \<Rightarrow> 'a io_state_scheme \<Rightarrow> 'a io_state_scheme" where
  "bindAddress os sockfd local_addr w =
     (let (r, w') = sys_call os (BindSock sockfd local_addr) w
      in if r \<noteq> 0 then note_log FATAL ''bind sockfd:%d fail'' w' else w')"

definition socket_listen :: "os \<Rightarrow> int \<Rightarrow> 'a io_state_scheme \<Rightarrow> 'a io_state_scheme" where
  "socket_listen os sockfd w =
     (let (r, w') = sys_call os (ListenSock sockfd 1024) w
      in if r \<noteq> 0 then note_log FATAL ''listen sockfd:%d fail'' w' else w')"

text \<open>The peer's address is stored only when there is a connection.\<close>

definition socket_accept ::
    "os \<Rightarrow> int \<Rightarrow> sockaddr_in \<Rightarrow> 'a io_state_scheme \<Rightarrow> int \<times> sockaddr_in \<times> 'a io_state_scheme" where
  "socket_accept os sockfd peer_addr w =
     (let (connfd, w') = sys_open os (Accept4 sockfd) w
      in (connfd,
          if connfd \<ge> 0 then setSockAddr (os_peer os (io_trace w') connfd) peer_addr else peer_addr,
          w'))"

definition shutdownWrite :: "os \<Rightarrow> int \<Rightarrow> 'a io_state_scheme \<Rightarrow> 'a io_state_scheme" where
  "shutdownWrite os sockfd w =
     (let (r, w') = sys_call os (ShutdownWr sockfd) w
      in if r < 0 then note_log ERROR ''shutdownWrite error'' w' else w')"

definition set_option :: "os \<Rightarrow> sock_opt \<Rightarrow> int \<Rightarrow> bool \<Rightarrow> 'a io_state_scheme \<Rightarrow> 'a io_state_scheme" where
  "set_option os opt sockfd on w = snd (sys_call os (SetSockOpt sockfd opt (if on then 1 else 0)) w)"

definition setTCPNoDelay :: "os \<Rightarrow> int \<Rightarrow> bool \<Rightarrow> 'a io_state_scheme \<Rightarrow> 'a io_state_scheme" where
  "setTCPNoDelay os = set_option os TCP_NODELAY"

definition setReuseAddr :: "os \<Rightarrow> int \<Rightarrow> bool \<Rightarrow> 'a io_state_scheme \<Rightarrow> 'a io_state_scheme" where
  "setReuseAddr os = set_option os SO_REUSEADDR"

definition setReusePort :: "os \<Rightarrow> int \<Rightarrow> bool \<Rightarrow> 'a io_state_scheme \<Rightarrow> 'a io_state_scheme" where
  "setReusePort os = set_option os SO_REUSEPORT"

definition setKeepAlive :: "os \<Rightarrow> int \<Rightarrow> bool \<Rightarrow> 'a io_state_scheme \<Rightarrow> 'a io_state_scheme" where
  "setKeepAlive os = set_option os SO_KEEPALIVE"

section \<open>The acceptor\<close>

record acceptor =
  ac_loop :: loop_ptr
  ac_socket :: int
  ac_channel :: chan_ptr
  ac_callback :: bool
  ac_listening :: bool

definition createNonBlocking :: "os \<Rightarrow> 'a io_state_scheme \<Rightarrow> int \<times> 'a io_state_scheme" where
  "createNonBlocking os w =
     (let (sockfd, w') = sys_open os StreamSocket w
      in (sockfd, if sockfd < 0 then note_log FATAL ''listen socket create err:%d'' w' else w'))"

text \<open>The parameter \<open>reuseport\<close> is not used: the port is always made reusable.\<close>

definition Acceptor_new ::
    "os \<Rightarrow> loop_ptr \<Rightarrow> sockaddr_in \<Rightarrow> bool \<Rightarrow> 'a loop_world_scheme \<Rightarrow> acceptor \<times> 'a loop_world_scheme" where
  "Acceptor_new os l listenAddr reuseport w =
     (let (sockfd, w) = createNonBlocking os w;
          c = lw_next w;
          w = put_channel c (Channel_new l sockfd) (w\<lparr>lw_next := lw_next w + 1\<rparr>);
          w = setReuseAddr os sockfd True w;
          w = setReusePort os sockfd True w;
          w = bindAddress os sockfd listenAddr w;
          w = put_channel c (setReadCallback AcceptorRead (Channel_new l sockfd)) w
      in (\<lparr>ac_loop = l, ac_socket = sockfd, ac_channel = c, ac_callback = False,
           ac_listening = False\<rparr>, w))"

definition setNewConnectionCallback :: "acceptor \<Rightarrow> acceptor" where
  "setNewConnectionCallback a = a\<lparr>ac_callback := True\<rparr>"

definition acceptor_listen ::
    "os \<Rightarrow> acceptor \<Rightarrow> 'a loop_world_scheme \<Rightarrow> cpp_error + (acceptor \<times> 'a loop_world_scheme)" where
  "acceptor_listen os a w =
     (let a = a\<lparr>ac_listening := True\<rparr>;
          w = socket_listen os (ac_socket a) w
      in bindE (enableReading os (ac_channel a) w) (\<lambda>w. Inr (a, w)))"

definition acceptor_handleRead ::
    "os \<Rightarrow> (int \<Rightarrow> sockaddr_in \<Rightarrow> 'a loop_world_scheme \<Rightarrow> cpp_error + 'a loop_world_scheme) \<Rightarrow>
     sockaddr_in \<Rightarrow> acceptor \<Rightarrow> 'a loop_world_scheme \<Rightarrow> cpp_error + 'a loop_world_scheme" where
  "acceptor_handleRead os on_new peerAddr a w =
     (let (connfd, peerAddr, w) = socket_accept os (ac_socket a) peerAddr w
      in if connfd \<ge> 0 then
           (if ac_callback a then on_new connfd peerAddr w
            else Inr (snd (sys_call os (CloseFd connfd) w)))
         else
           (let w = note_log ERROR ''accept err:%d'' w
            in Inr (if io_errno w = EMFILE then note_log ERROR ''sockfd reached limit'' w else w)))"

text \<open>The destructor, then those of the channel and the socket.\<close>

definition Acceptor_delete ::
    "os \<Rightarrow> acceptor \<Rightarrow> 'a loop_world_scheme \<Rightarrow> cpp_error + 'a loop_world_scheme" where
  "Acceptor_delete os a w =
     bindE (disableAll os (ac_channel a) w) (\<lambda>w.
     bindE (channel_remove os (ac_channel a) w) (\<lambda>w.
       Inr (Socket_delete os (ac_socket a)
              (w\<lparr>cw_channels := (cw_channels w)(ac_channel a := None)\<rparr>))))"

section \<open>Frames\<close>

lemma set_option_step [simp]: "io_step w (set_option os opt f on w)"
  by (simp add: set_option_def)

lemma option_setters:
  "setTCPNoDelay os f on w = set_option os TCP_NODELAY f on w"
  "setReuseAddr os f on w = set_option os SO_REUSEADDR f on w"
  "setReusePort os f on w = set_option os SO_REUSEPORT f on w"
  "setKeepAlive os f on w = set_option os SO_KEEPALIVE f on w"
  by (simp_all add: setTCPNoDelay_def setReuseAddr_def setReusePort_def setKeepAlive_def)

lemma io_step_then [intro]:
  "io_step w v \<Longrightarrow> io_step w (note_log lv m v)"
  by (auto intro: io_step_trans)

lemma socket_steps [simp]:
  "io_step w (bindAddress os f a w)" "io_step w (socket_listen os f w)"
  "io_step w (shutdownWrite os f w)" "io_step w (Socket_delete os f w)"
  by (auto simp: bindAddress_def socket_listen_def shutdownWrite_def Socket_delete_def split: prod.splits
      intro: io_step_then dest: sys_step(3))

lemma socket_accept_step: "socket_accept os f a w = (n, p, w') \<Longrightarrow> io_step w w'"
  by (auto simp: socket_accept_def split: prod.splits dest: sys_step(4))

lemma acceptor_listen_extends: "acceptor_listen os a w = Inr (a', w') \<Longrightarrow> extends w w'"
  by (auto simp: acceptor_listen_def Let_def bind_simps dest!: channel_ops_extends(1)
      intro: extends_trans [OF io_step_extends [OF socket_steps(2)]])

lemma acceptor_handleRead_extends:
  assumes "acceptor_handleRead os on_new p a w = Inr w'"
    and "\<And>f q v v'. on_new f q v = Inr v' \<Longrightarrow> extends v v'"
  shows "extends w w'"
  using assms(1)
  by (auto simp: acceptor_handleRead_def Let_def split: prod.splits if_splits
      dest!: socket_accept_step io_step_extends assms(2) intro: extends_trans)

section \<open>Properties\<close>


end
