(* ===== verification/Tcp_Connection.thy ===== *)
theory Tcp_Connection
  imports Byte_Buffer Acceptor
begin

text \<open>
  include/tcp_connection.hpp, include/callbacks.hpp, ZTcpConnection/TcpConnection.cpp: one
  connection, its two buffers, its channel and socket. (\<open>sendFile\<close> is commented out in the source.)

  Connections live in the store \<open>tw_conns\<close>; the member functions look \<open>this\<close> up again after
  everything that may have changed it, and a connection that is gone is a \<open>UseAfterFree\<close>. The
  strings that callers pass to \<open>send\<close> live in \<open>tw_strs\<close>, because the cross-thread path keeps their
  address only. The functions that users and server set as callbacks are the fields of the
  parameter \<open>cbs\<close>, indexed by the name of the function that was set.
\<close>

section \<open>State\<close>

datatype conn_state = kDisconnected | kConnecting | kConnected | kDisconnecting

record connection =
  tc_loop :: loop_ptr
  tc_name :: string
  tc_state :: conn_state
  tc_reading :: bool
  tc_socket :: int
  tc_channel :: chan_ptr
  tc_localAddr :: sockaddr_in
  tc_peerAddr :: sockaddr_in
  tc_connectionCallback :: "conn_fn option"
  tc_messageCallback :: "conn_fn option"
  tc_writeCompleteCallback :: "conn_fn option"
  tc_highWaterMarkCallback :: "conn_fn option"
  tc_closeCallback :: "conn_fn option"
  tc_highWaterMask :: size_t
  tc_inputBuffer :: buffer
  tc_outputBuffer :: buffer

record conn_world = loop_world +
  tw_conns :: "conn_ptr \<rightharpoonup> connection"
  tw_strs :: "str_ptr \<rightharpoonup> string"

record 'w callbacks =
  on_connection :: "conn_fn \<Rightarrow> conn_ptr \<Rightarrow> 'w \<Rightarrow> cpp_error + 'w"
  on_message :: "conn_fn \<Rightarrow> conn_ptr \<Rightarrow> timestamp \<Rightarrow> 'w \<Rightarrow> cpp_error + 'w"
  on_writeComplete :: "conn_fn \<Rightarrow> conn_ptr \<Rightarrow> 'w \<Rightarrow> cpp_error + 'w"
  on_highWaterMark :: "conn_fn \<Rightarrow> conn_ptr \<Rightarrow> size_t \<Rightarrow> 'w \<Rightarrow> cpp_error + 'w"
  on_close :: "conn_fn \<Rightarrow> conn_ptr \<Rightarrow> 'w \<Rightarrow> cpp_error + 'w"
  on_task :: "nat \<Rightarrow> 'w \<Rightarrow> cpp_error + 'w"

definition put_conn :: "conn_ptr \<Rightarrow> connection \<Rightarrow> 'a conn_world_scheme \<Rightarrow> 'a conn_world_scheme" where
  "put_conn c conn w = w\<lparr>tw_conns := (tw_conns w)(c \<mapsto> conn)\<rparr>"

definition setState ::
    "conn_state \<Rightarrow> conn_ptr \<Rightarrow> 'a conn_world_scheme \<Rightarrow> cpp_error + 'a conn_world_scheme" where
  "setState state c w =
     bindE (derefE (tw_conns w) c) (\<lambda>conn. Inr (put_conn c (conn\<lparr>tc_state := state\<rparr>) w))"

definition setConnectionCallback :: "conn_fn option \<Rightarrow> connection \<Rightarrow> connection" where
  "setConnectionCallback cb conn = conn\<lparr>tc_connectionCallback := cb\<rparr>"

definition setMessageCallback :: "conn_fn option \<Rightarrow> connection \<Rightarrow> connection" where
  "setMessageCallback cb conn = conn\<lparr>tc_messageCallback := cb\<rparr>"

definition setWriteCompleteCallback :: "conn_fn option \<Rightarrow> connection \<Rightarrow> connection" where
  "setWriteCompleteCallback cb conn = conn\<lparr>tc_writeCompleteCallback := cb\<rparr>"

definition setConnCloseCallback :: "conn_fn option \<Rightarrow> connection \<Rightarrow> connection" where
  "setConnCloseCallback cb conn = conn\<lparr>tc_closeCallback := cb\<rparr>"

definition setHighWaterMaskCallback :: "conn_fn option \<Rightarrow> connection \<Rightarrow> connection" where
  "setHighWaterMaskCallback cb conn = conn\<lparr>tc_highWaterMarkCallback := cb\<rparr>"

text \<open>The call of a \<open>std::function\<close> throws when it is empty.\<close>

definition invoke ::
    "('f \<Rightarrow> 'w \<Rightarrow> cpp_error + 'w) \<Rightarrow> 'f option \<Rightarrow> 'w \<Rightarrow> cpp_error + 'w" where
  "invoke run f w = (case f of None \<Rightarrow> Inl BadFunctionCall | Some g \<Rightarrow> run g w)"

definition invoke_connection ::
    "('a conn_world_scheme) callbacks \<Rightarrow> conn_ptr \<Rightarrow> 'a conn_world_scheme \<Rightarrow>
     cpp_error + 'a conn_world_scheme" where
  "invoke_connection cbs c w =
     bindE (derefE (tw_conns w) c) (\<lambda>conn.
       invoke (\<lambda>f. on_connection cbs f c) (tc_connectionCallback conn) w)"

definition invoke_close ::
    "('a conn_world_scheme) callbacks \<Rightarrow> conn_ptr \<Rightarrow> 'a conn_world_scheme \<Rightarrow>
     cpp_error + 'a conn_world_scheme" where
  "invoke_close cbs c w =
     bindE (derefE (tw_conns w) c) (\<lambda>conn.
       invoke (\<lambda>f. on_close cbs f c) (tc_closeCallback conn) w)"

section \<open>Construction\<close>

definition CheckLoopNotNull :: "loop_ptr \<Rightarrow> 'a io_state_scheme \<Rightarrow> 'a io_state_scheme" where
  "CheckLoopNotNull l w = (if l = 0 then note_log FATAL ''mainLoop is null!'' w else w)"

declare CheckLoopNotNull_def [simp]

definition TcpConnection_new ::
    "os \<Rightarrow> loop_ptr \<Rightarrow> string \<Rightarrow> int \<Rightarrow> sockaddr_in \<Rightarrow> sockaddr_in \<Rightarrow> 'a conn_world_scheme \<Rightarrow>
     cpp_error + (conn_ptr \<times> 'a conn_world_scheme)" where
  "TcpConnection_new os l name sockfd localAddr peerAddr w =
     (let w = CheckLoopNotNull l w;
          c = lw_next w; chan = lw_next w + 1;
          ch = setErrorCallback (ConnError c) (setCloseCallback (ConnClose c)
                 (setWriteCallback (ConnWrite c) (setReadCallback (ConnRead c) (Channel_new l sockfd))))
      in bindE (Buffer_new kInitialSize) (\<lambda>inb.
         bindE (Buffer_new kInitialSize) (\<lambda>outb.
           let conn = \<lparr>tc_loop = l, tc_name = name, tc_state = kConnecting, tc_reading = True,
                 tc_socket = sockfd, tc_channel = chan, tc_localAddr = localAddr,
                 tc_peerAddr = peerAddr, tc_connectionCallback = None, tc_messageCallback = None,
                 tc_writeCompleteCallback = None, tc_highWaterMarkCallback = None,
                 tc_closeCallback = None, tc_highWaterMask = 64 * 1024 * 1024,
                 tc_inputBuffer = inb, tc_outputBuffer = outb\<rparr>
           in Inr (c, setKeepAlive os sockfd True
                        (put_conn c conn (put_channel chan ch (w\<lparr>lw_next := lw_next w + 2\<rparr>)))))))"

text \<open>The destructor: the channel object goes, and the socket's destructor closes the descriptor.\<close>

definition TcpConnection_delete ::
    "os \<Rightarrow> conn_ptr \<Rightarrow> 'a conn_world_scheme \<Rightarrow> cpp_error + 'a conn_world_scheme" where
  "TcpConnection_delete os c w =
     bindE (derefE (tw_conns w) c) (\<lambda>conn.
       Inr (Socket_delete os (tc_socket conn)
              (w\<lparr>tw_conns := (tw_conns w)(c := None),
                 cw_channels := (cw_channels w)(tc_channel conn := None)\<rparr>)))"

definition connected :: "connection \<Rightarrow> bool" where
  "connected conn \<longleftrightarrow> tc_state conn = kConnected"

section \<open>Sending\<close>

text \<open>The array \<open>c_str()\<close> points to, and the pointer \<open>data + nwrote\<close> into it.\<close>

definition c_array :: "string \<Rightarrow> char list" where
  "c_array str = str @ [CHR 0x00]"

definition data_from :: "string \<Rightarrow> int option \<Rightarrow> cpp_error + char list" where
  "data_from str nwrote =
     (case nwrote of
        None \<Rightarrow> Inl UninitialisedRead
      | Some k \<Rightarrow>
          if k < 0 \<or> int (length (c_array str)) < k then Inl OutOfBounds
          else Inr (drop (nat k) (c_array str)))"

text \<open>
  The first half of \<open>sendInLoop\<close>: a direct \<open>write\<close> when nothing is pending. Returns \<open>nwrote\<close>
  (\<open>None\<close> while it has no value), \<open>remaining\<close> and \<open>faultError\<close>.
\<close>

definition send_directly ::
    "os \<Rightarrow> conn_ptr \<Rightarrow> str_ptr \<Rightarrow> size_t \<Rightarrow> 'a conn_world_scheme \<Rightarrow>
     cpp_error + (int option \<times> size_t \<times> bool \<times> 'a conn_world_scheme)" where
  "send_directly os c data len w =
     bindE (derefE (tw_conns w) c) (\<lambda>conn.
     bindE (derefE (cw_channels w) (tc_channel conn)) (\<lambda>ch.
       if \<not> isWriting ch \<and> readableBytes (tc_outputBuffer conn) = 0 then
         bindE (derefE (tw_strs w) data) (\<lambda>str.
           if length (c_array str) < unat len then Inl OutOfBounds
           else
             (let (nwrote, w) = sys_write os (ch_fd ch) (take (unat len) (c_array str)) w
              in if nwrote \<noteq> 0 then
                   (let remaining = len - of_int nwrote
                    in bindE (if remaining = 0 then
                                (case tc_writeCompleteCallback conn of
                                   Some f \<Rightarrow> queueInLLoop os (tc_loop conn) (WriteComplete f c) w
                                 | None \<Rightarrow> Inr w)
                              else Inr w) (\<lambda>w. Inr (Some nwrote, remaining, False, w)))
                 else if io_errno w \<noteq> EWOULDBLOCK then
                   Inr (Some 0, len, io_errno w = EPIPE \<or> io_errno w = ECONNRESET,
                        note_log ERROR ''TcpConnection::sendInLoop'' w)
                 else Inr (Some 0, len, False, w)))
       else Inr (None, len, False, w)))"

text \<open>The second half: what was not written goes to the output buffer.\<close>

definition send_later ::
    "os \<Rightarrow> conn_ptr \<Rightarrow> str_ptr \<Rightarrow> int option \<Rightarrow> size_t \<Rightarrow> 'a conn_world_scheme \<Rightarrow>
     cpp_error + 'a conn_world_scheme" where
  "send_later os c data nwrote remaining w =
     bindE (derefE (tw_conns w) c) (\<lambda>conn.
       let oldLen = readableBytes (tc_outputBuffer conn)
       in bindE (case tc_highWaterMarkCallback conn of
                   Some f \<Rightarrow>
                     if oldLen + remaining \<ge> tc_highWaterMask conn \<and> oldLen < tc_highWaterMask conn
                     then queueInLLoop os (tc_loop conn) (HighWaterMark f c (oldLen + remaining)) w
                     else Inr w
                 | None \<Rightarrow> Inr w) (\<lambda>w.
          bindE (derefE (tw_strs w) data) (\<lambda>str.
          bindE (data_from str nwrote) (\<lambda>bytes.
          bindE (append_bytes bytes remaining (tc_outputBuffer conn)) (\<lambda>outb.
          let w = put_conn c (conn\<lparr>tc_outputBuffer := outb\<rparr>) w
          in bindE (derefE (cw_channels w) (tc_channel conn)) (\<lambda>ch.
               if isWriting ch then Inr w else enableWriting os (tc_channel conn) w))))))"

definition sendInLoop ::
    "os \<Rightarrow> conn_ptr \<Rightarrow> str_ptr \<Rightarrow> size_t \<Rightarrow> 'a conn_world_scheme \<Rightarrow> cpp_error + 'a conn_world_scheme" where
  "sendInLoop os c data len w =
     bindE (derefE (tw_conns w) c) (\<lambda>conn.
       let w = (if tc_state conn = kDisconnected
                then note_log ERROR ''disconnected, give up writing'' w else w)
       in bindE (send_directly os c data len w) (\<lambda>(nwrote, remaining, faultError, w).
            if \<not> faultError \<and> remaining > 0 then send_later os c data nwrote remaining w else Inr w))"

definition send ::
    "os \<Rightarrow> str_ptr \<Rightarrow> conn_ptr \<Rightarrow> 'a conn_world_scheme \<Rightarrow> cpp_error + 'a conn_world_scheme" where
  "send os buf c w =
     bindE (derefE (tw_conns w) c) (\<lambda>conn.
       if tc_state conn = kConnected then
         bindE (derefE (lw_loops w) (tc_loop conn)) (\<lambda>lp.
         bindE (derefE (tw_strs w) buf) (\<lambda>str.
           let size = of_nat (length str)
           in if isInLoopThread lp w then sendInLoop os c buf size w
              else runInLoop os (tc_loop conn) (SendInLoop c buf size) (sendInLoop os c buf size) w))
       else Inr w)"

section \<open>Shutting down\<close>

definition shutdownInLoop ::
    "os \<Rightarrow> conn_ptr \<Rightarrow> 'a conn_world_scheme \<Rightarrow> cpp_error + 'a conn_world_scheme" where
  "shutdownInLoop os c w =
     bindE (derefE (tw_conns w) c) (\<lambda>conn.
     bindE (derefE (cw_channels w) (tc_channel conn)) (\<lambda>ch.
       Inr (if isWriting ch then w else shutdownWrite os (tc_socket conn) w)))"

definition shutdown ::
    "os \<Rightarrow> conn_ptr \<Rightarrow> 'a conn_world_scheme \<Rightarrow> cpp_error + 'a conn_world_scheme" where
  "shutdown os c w =
     bindE (derefE (tw_conns w) c) (\<lambda>conn.
       if tc_state conn = kConnected then
         bindE (setState kDisconnected c w) (\<lambda>w.
           runInLoop os (tc_loop conn) (ShutdownInLoop c) (shutdownInLoop os c) w)
       else Inr w)"

section \<open>Establishing and destroying\<close>

definition connectEstablished ::
    "('a conn_world_scheme) callbacks \<Rightarrow> os \<Rightarrow> conn_ptr \<Rightarrow> 'a conn_world_scheme \<Rightarrow>
     cpp_error + 'a conn_world_scheme" where
  "connectEstablished cbs os c w =
     bindE (setState kConnected c w) (\<lambda>w.
     bindE (derefE (tw_conns w) c) (\<lambda>conn.
     bindE (derefE (cw_channels w) (tc_channel conn)) (\<lambda>ch.
     bindE (enableReading os (tc_channel conn) (put_channel (tc_channel conn) (tie c ch) w)) (\<lambda>w.
     invoke_connection cbs c w))))"

definition connectDestroyed ::
    "('a conn_world_scheme) callbacks \<Rightarrow> os \<Rightarrow> conn_ptr \<Rightarrow> 'a conn_world_scheme \<Rightarrow>
     cpp_error + 'a conn_world_scheme" where
  "connectDestroyed cbs os c w =
     bindE (derefE (tw_conns w) c) (\<lambda>conn.
     bindE (if tc_state conn = kConnected then
              bindE (setState kDisconnected c w) (\<lambda>w.
              bindE (disableAll os (tc_channel conn) w) (\<lambda>w.
              invoke_connection cbs c w))
            else Inr w) (\<lambda>w.
     channel_remove os (tc_channel conn) w))"

section \<open>Handlers of the channel\<close>

definition handleClose ::
    "('a conn_world_scheme) callbacks \<Rightarrow> os \<Rightarrow> conn_ptr \<Rightarrow> 'a conn_world_scheme \<Rightarrow>
     cpp_error + 'a conn_world_scheme" where
  "handleClose cbs os c w =
     bindE (derefE (tw_conns w) c) (\<lambda>conn.
     bindE (setState kDisconnected c w) (\<lambda>w.
     bindE (disableAll os (tc_channel conn) w) (\<lambda>w.
     bindE (invoke_connection cbs c w) (\<lambda>w.
     invoke_close cbs c w))))"

definition error_text :: "string \<Rightarrow> int \<Rightarrow> string" where
  "error_text name err =
     snprintf 1024 (''TcpConnection::handleError name:'' @ name @ '' - SO_ERROR:'' @ dec_int err)"

definition handleError ::
    "os \<Rightarrow> conn_ptr \<Rightarrow> 'a conn_world_scheme \<Rightarrow> cpp_error + 'a conn_world_scheme" where
  "handleError os c w =
     bindE (derefE (tw_conns w) c) (\<lambda>conn.
     bindE (derefE (cw_channels w) (tc_channel conn)) (\<lambda>ch.
       let (err, w) = (case os_sockerror os (io_trace w) (ch_fd ch) of
                         Inl e \<Rightarrow> (e, w\<lparr>io_errno := e\<rparr>) | Inr optval \<Rightarrow> (optval, w))
       in Inr (note_log ERROR (error_text (tc_name conn) err) w)))"

definition handleRead ::
    "('a conn_world_scheme) callbacks \<Rightarrow> os \<Rightarrow> timestamp \<Rightarrow> conn_ptr \<Rightarrow> 'a conn_world_scheme \<Rightarrow>
     cpp_error + 'a conn_world_scheme" where
  "handleRead cbs os time c w =
     bindE (derefE (tw_conns w) c) (\<lambda>conn.
     bindE (derefE (cw_channels w) (tc_channel conn)) (\<lambda>ch.
     bindE (readFd os (ch_fd ch) (tc_inputBuffer conn) w) (\<lambda>(n, saveErrno, inb, w).
       let w = put_conn c (conn\<lparr>tc_inputBuffer := inb\<rparr>) w
       in if n > 0 then invoke (\<lambda>f. on_message cbs f c time) (tc_messageCallback conn) w
          else if n = 0 then handleClose cbs os c w
          else
            handleError os c (note_log ERROR ''TcpConnection::handleRead''
              (w\<lparr>io_errno := (case saveErrno of None \<Rightarrow> 0 | Some e \<Rightarrow> e)\<rparr>)))))"

definition handleWrite ::
    "os \<Rightarrow> conn_ptr \<Rightarrow> 'a conn_world_scheme \<Rightarrow> cpp_error + 'a conn_world_scheme" where
  "handleWrite os c w =
     bindE (derefE (tw_conns w) c) (\<lambda>conn.
     bindE (derefE (cw_channels w) (tc_channel conn)) (\<lambda>ch.
       if isWriting ch then
         bindE (writeFd os (ch_fd ch) (tc_outputBuffer conn) w) (\<lambda>(n, saveErrno, w).
           if n > 0 then
             (let outb = retrieve (of_int n) (tc_outputBuffer conn);
                  w = put_conn c (conn\<lparr>tc_outputBuffer := outb\<rparr>) w
              in if readableBytes outb = 0 then
                   bindE (disableWriting os (tc_channel conn) w) (\<lambda>w.
                   bindE (case tc_writeCompleteCallback conn of
                            Some f \<Rightarrow> queueInLLoop os (tc_loop conn) (WriteComplete f c) w
                          | None \<Rightarrow> Inr w) (\<lambda>w.
                     if tc_state conn = kDisconnected then shutdownInLoop os c w else Inr w))
                 else Inr w)
           else handleError os c (note_log ERROR ''TcpConnection::handleWrite'' w))
       else Inr (note_log ERROR ''TcpConnection fd=%d is down, no more writing'' w)))"

end
