(* ===== verification/Loop_Thread_Pool.thy ===== *)
theory Loop_Thread_Pool
  imports Loop_Lifecycle
begin

text \<open>
  include/thread_.hpp, ZThread/thread_.cpp; include/event_loop_thread.hpp,
  ZEventLoop/event_loop_thread.cpp; include/event_loop_thread_pool.hpp,
  ZEventLoop/event_loop_thread_pool.cpp: threads, a loop in a thread of its own, and the pool that
  hands the loops out in turn.

  \<open>startLoop\<close> returns after the new thread has made its loop and published it, so the model runs
  this part of the new thread (\<open>threadFunc_begin\<close>, under the id of that thread) inside \<open>startLoop\<close>.
  The function a thread runs on its loop first is a parameter: \<open>cb\<close> names it, \<open>on_init\<close> runs it.
\<close>

section \<open>Threads\<close>

text \<open>\<open>th_thread\<close>: the pointer to the \<open>std::thread\<close> is not null.\<close>

record thread_ =
  th_started :: bool
  th_joined :: bool
  th_thread :: bool
  th_tid :: int
  th_name :: string

text \<open>An increment of \<open>atomic_int\<close> wraps around.\<close>

definition atomic_increment :: "int \<Rightarrow> int" where
  "atomic_increment n = (if n = 2147483647 then -2147483648 else n + 1)"

definition setDefaultName :: "thread_ \<Rightarrow> 'a loop_world_scheme \<Rightarrow> thread_ \<times> 'a loop_world_scheme" where
  "setDefaultName t w =
     (let num = atomic_increment (lw_numCreated w);
          w = w\<lparr>lw_numCreated := num\<rparr>
      in (if th_name t = [] then t\<lparr>th_name := snprintf 32 (''Thread'' @ dec_int num)\<rparr> else t, w))"

definition Thread_new :: "string \<Rightarrow> 'a loop_world_scheme \<Rightarrow> thread_ \<times> 'a loop_world_scheme" where
  "Thread_new name w =
     setDefaultName \<lparr>th_started = False, th_joined = False, th_thread = False, th_tid = 0,
                     th_name = name\<rparr> w"

definition Thread_start :: "os \<Rightarrow> thread_ \<Rightarrow> 'a loop_world_scheme \<Rightarrow> thread_ \<times> 'a loop_world_scheme" where
  "Thread_start os t w =
     (let (tid, w) = sys_spawn os w
      in (t\<lparr>th_started := True, th_thread := True, th_tid := tid\<rparr>, w))"

definition Thread_join :: "thread_ \<Rightarrow> cpp_error + thread_" where
  "Thread_join t =
     (if th_thread t then Inr (t\<lparr>th_joined := True\<rparr>) else Inl NullDereference)"

text \<open>The destructor detaches a thread that was started and not joined: is it detached?\<close>

definition Thread_delete :: "thread_ \<Rightarrow> bool" where
  "Thread_delete t \<longleftrightarrow> th_started t \<and> \<not> th_joined t"

section \<open>A loop in its own thread\<close>

record loop_thread =
  lt_loop :: "loop_ptr option"
  lt_exiting :: bool
  lt_thread :: thread_
  lt_callback :: "nat option"

definition EventLoopThread_new ::
    "nat option \<Rightarrow> string \<Rightarrow> 'a loop_world_scheme \<Rightarrow> loop_thread \<times> 'a loop_world_scheme" where
  "EventLoopThread_new cb name w =
     (let (t, w) = Thread_new name w
      in (\<lparr>lt_loop = None, lt_exiting = False, lt_thread = t, lt_callback = cb\<rparr>, w))"

text \<open>\<open>threadFunc\<close> up to the notification of the waiting thread; it runs with the new thread's id.\<close>

definition threadFunc_begin ::
    "bool \<Rightarrow> os \<Rightarrow> (nat \<Rightarrow> loop_ptr \<Rightarrow> 'a loop_world_scheme \<Rightarrow> cpp_error + 'a loop_world_scheme) \<Rightarrow>
     loop_thread \<Rightarrow> 'a loop_world_scheme \<Rightarrow> cpp_error + (loop_ptr \<times> loop_thread \<times> 'a loop_world_scheme)" where
  "threadFunc_begin muduo_use_poll os on_init lt w =
     bindE (EventLoop_new muduo_use_poll os w) (\<lambda>(l, w).
     bindE (case lt_callback lt of None \<Rightarrow> Inr w | Some cb \<Rightarrow> on_init cb l w) (\<lambda>w.
       Inr (l, lt\<lparr>lt_loop := Some l\<rparr>, w)))"

text \<open>\<open>threadFunc\<close> after its \<open>loop()\<close> has returned, with the destruction of the loop.\<close>

definition threadFunc_end ::
    "os \<Rightarrow> loop_ptr \<Rightarrow> loop_thread \<Rightarrow> 'a loop_world_scheme \<Rightarrow>
     cpp_error + (loop_thread \<times> 'a loop_world_scheme)" where
  "threadFunc_end os l lt w =
     bindE (EventLoop_delete os l w) (\<lambda>w. Inr (lt\<lparr>lt_loop := None\<rparr>, w))"

definition startLoop ::
    "bool \<Rightarrow> os \<Rightarrow> (nat \<Rightarrow> loop_ptr \<Rightarrow> 'a loop_world_scheme \<Rightarrow> cpp_error + 'a loop_world_scheme) \<Rightarrow>
     loop_thread \<Rightarrow> 'a loop_world_scheme \<Rightarrow> cpp_error + (loop_ptr \<times> loop_thread \<times> 'a loop_world_scheme)" where
  "startLoop muduo_use_poll os on_init lt w =
     (let (t, w1) = Thread_start os (lt_thread lt) w
      in bindE (threadFunc_begin muduo_use_poll os on_init (lt\<lparr>lt_thread := t\<rparr>)
                  (w1\<lparr>io_tid := th_tid t\<rparr>)) (\<lambda>(l, lt, w2).
           Inr (l, lt, w2\<lparr>io_tid := io_tid w\<rparr>)))"

definition EventLoopThread_delete ::
    "os \<Rightarrow> loop_thread \<Rightarrow> 'a loop_world_scheme \<Rightarrow> cpp_error + (loop_thread \<times> 'a loop_world_scheme)" where
  "EventLoopThread_delete os lt w =
     (let lt = lt\<lparr>lt_exiting := True\<rparr>
      in case lt_loop lt of
           None \<Rightarrow> Inr (lt, w)
         | Some l \<Rightarrow>
             bindE (loop_quit os l w) (\<lambda>w.
             bindE (Thread_join (lt_thread lt)) (\<lambda>t. Inr (lt\<lparr>lt_thread := t\<rparr>, w))))"

section \<open>The pool\<close>

record thread_pool =
  tp_baseLoop :: loop_ptr
  tp_name :: string
  tp_started :: bool
  tp_numThread :: int
  tp_next :: int
  tp_threads :: "loop_thread list"
  tp_loops :: "loop_ptr list"

definition EventLoopThreadPool_new :: "loop_ptr \<Rightarrow> string \<Rightarrow> thread_pool" where
  "EventLoopThreadPool_new baseLoop nameArg =
     \<lparr>tp_baseLoop = baseLoop, tp_name = nameArg, tp_started = False, tp_numThread = 0, tp_next = 0,
      tp_threads = [], tp_loops = []\<rparr>"

definition pool_setThreadNum :: "int \<Rightarrow> thread_pool \<Rightarrow> thread_pool" where
  "pool_setThreadNum numThread p = p\<lparr>tp_numThread := numThread\<rparr>"

text \<open>The name of the \<open>i\<close>th thread, in a buffer 32 bytes larger than the pool's name.\<close>

definition pool_thread_name :: "thread_pool \<Rightarrow> int \<Rightarrow> string" where
  "pool_thread_name p i = snprintf (length (tp_name p) + 32) (tp_name p @ dec_int i)"

definition pool_start_thread ::
    "bool \<Rightarrow> os \<Rightarrow> (nat \<Rightarrow> loop_ptr \<Rightarrow> 'a loop_world_scheme \<Rightarrow> cpp_error + 'a loop_world_scheme) \<Rightarrow>
     nat option \<Rightarrow> int \<Rightarrow> thread_pool \<times> 'a loop_world_scheme \<Rightarrow>
     cpp_error + (thread_pool \<times> 'a loop_world_scheme)" where
  "pool_start_thread muduo_use_poll os on_init cb i s =
     (let (p, w) = s;
          (t, w) = EventLoopThread_new cb (pool_thread_name p i) w
      in bindE (startLoop muduo_use_poll os on_init t w) (\<lambda>(l, t, w).
           Inr (p\<lparr>tp_threads := tp_threads p @ [t], tp_loops := tp_loops p @ [l]\<rparr>, w)))"

definition pool_start ::
    "bool \<Rightarrow> os \<Rightarrow> (nat \<Rightarrow> loop_ptr \<Rightarrow> 'a loop_world_scheme \<Rightarrow> cpp_error + 'a loop_world_scheme) \<Rightarrow>
     nat option \<Rightarrow> thread_pool \<Rightarrow> 'a loop_world_scheme \<Rightarrow>
     cpp_error + (thread_pool \<times> 'a loop_world_scheme)" where
  "pool_start muduo_use_poll os on_init cb p w =
     bindE (foldE (pool_start_thread muduo_use_poll os on_init cb) [0..tp_numThread p - 1]
              (p\<lparr>tp_started := True\<rparr>, w)) (\<lambda>(p, w).
       case cb of
         Some f \<Rightarrow> if tp_numThread p = 0
                   then bindE (on_init f (tp_baseLoop p) w) (\<lambda>w. Inr (p, w)) else Inr (p, w)
       | None \<Rightarrow> Inr (p, w))"

text \<open>The threads of the pool are destroyed with it.\<close>

definition pool_delete ::
    "os \<Rightarrow> thread_pool \<Rightarrow> 'a loop_world_scheme \<Rightarrow> cpp_error + 'a loop_world_scheme" where
  "pool_delete os p w =
     foldE (\<lambda>lt w. bindE (EventLoopThread_delete os lt w) (\<lambda>(lt, w). Inr w)) (tp_threads p) w"

definition getNextLoop :: "thread_pool \<Rightarrow> cpp_error + (loop_ptr \<times> thread_pool)" where
  "getNextLoop p =
     (if tp_loops p = [] then Inr (tp_baseLoop p, p)
      else if tp_next p < 0 \<or> int (length (tp_loops p)) \<le> tp_next p then Inl OutOfBounds
      else
        (let l = tp_loops p ! nat (tp_next p);
             n = tp_next p + 1
         in Inr (l, p\<lparr>tp_next := if n \<ge> int (length (tp_loops p)) then 0 else n\<rparr>)))"

definition getAllLoops :: "thread_pool \<Rightarrow> loop_ptr list" where
  "getAllLoops p = (if tp_loops p = [] then [tp_baseLoop p] else tp_loops p)"

section \<open>Handing out loops in turn\<close>

text \<open>\<open>k\<close> calls of \<open>getNextLoop\<close> in a row.\<close>

fun next_loops :: "nat \<Rightarrow> thread_pool \<Rightarrow> cpp_error + (loop_ptr list \<times> thread_pool)" where
  "next_loops 0 p = Inr ([], p)"
| "next_loops (Suc k) p =
     bindE (getNextLoop p) (\<lambda>(l, p). bindE (next_loops k p) (\<lambda>(ls, p). Inr (l # ls, p)))"

definition pool_inv :: "thread_pool \<Rightarrow> bool" where
  "pool_inv p \<longleftrightarrow> 0 \<le> tp_next p \<and> (tp_loops p = [] \<or> tp_next p < int (length (tp_loops p)))"

lemma getNextLoop_result:
  assumes "pool_inv p" and "tp_loops p \<noteq> []"
  shows "getNextLoop p = Inr (tp_loops p ! nat (tp_next p),
      p\<lparr>tp_next := (tp_next p + 1) mod int (length (tp_loops p))\<rparr>)"
proof (cases "tp_next p + 1 = int (length (tp_loops p))")
  case True
  then have "(tp_next p + 1) mod int (length (tp_loops p)) = 0" by simp
  with assms True show ?thesis by (simp add: getNextLoop_def pool_inv_def Let_def)
qed (use assms in \<open>auto simp: getNextLoop_def pool_inv_def Let_def\<close>)

lemma getNextLoop_inv: "pool_inv p \<Longrightarrow> getNextLoop p = Inr (l, p') \<Longrightarrow> pool_inv p' \<and> tp_loops p' = tp_loops p"
  by (auto simp: getNextLoop_def pool_inv_def Let_def split: if_splits)

lemma next_loops_result:
  assumes "pool_inv p" and "tp_loops p \<noteq> []"
  shows "\<exists>p'. next_loops k p = Inr (map (\<lambda>i. tp_loops p ! ((nat (tp_next p) + i) mod length (tp_loops p))) [0..<k], p')
      \<and> pool_inv p'"
  using assms
proof (induction k arbitrary: p)
  case 0
  then show ?case by simp
next
  case (Suc k)
  let ?n = "length (tp_loops p)"
  let ?p = "p\<lparr>tp_next := (tp_next p + 1) mod int ?n\<rparr>"
  have one: "getNextLoop p = Inr (tp_loops p ! nat (tp_next p), ?p)"
    by (rule getNextLoop_result [OF Suc.prems])
  have inv: "pool_inv ?p" using getNextLoop_inv [OF Suc.prems(1) one] by blast
  have lt: "nat (tp_next p) < ?n" using Suc.prems by (auto simp: pool_inv_def)
  have nx: "nat ((tp_next p + 1) mod int ?n) = (nat (tp_next p) + 1) mod ?n"
    using Suc.prems(1) by (simp add: pool_inv_def nat_mod_distrib nat_add_distrib)
  obtain p' where p': "next_loops k ?p = Inr (map (\<lambda>i. tp_loops p ! ((nat (tp_next p) + Suc i) mod ?n)) [0..<k], p')"
      "pool_inv p'"
    using Suc.IH [OF inv] Suc.prems(2) by (auto simp: nx mod_simps)
  have "map (\<lambda>i. tp_loops p ! ((nat (tp_next p) + i) mod ?n)) [0..<Suc k] =
      tp_loops p ! nat (tp_next p) # map (\<lambda>i. tp_loops p ! ((nat (tp_next p) + Suc i) mod ?n)) [0..<k]"
    using lt by (simp add: upt_conv_Cons map_Suc_upt [symmetric] del: upt_Suc)
  with one p' show ?case by (intro exI [of _ p']) (simp del: upt_Suc)
qed

text \<open>Any full turn is a rotation of the list of loops.\<close>

lemma full_turn:
  assumes "s < length xs"
  shows "map (\<lambda>i. xs ! ((s + i) mod length xs)) [0..<length xs] = rotate s xs"
proof (rule nth_equalityI)
  show "length (map (\<lambda>i. xs ! ((s + i) mod length xs)) [0..<length xs]) = length (rotate s xs)" by simp
  fix i assume "i < length (map (\<lambda>i. xs ! ((s + i) mod length xs)) [0..<length xs])"
  then show "map (\<lambda>i. xs ! ((s + i) mod length xs)) [0..<length xs] ! i = rotate s xs ! i"
    by (simp add: nth_rotate)
qed

section \<open>Names of threads\<close>

lemma dec_int_inject: "0 \<le> i \<Longrightarrow> 0 \<le> j \<Longrightarrow> dec_int i = dec_int j \<longleftrightarrow> i = j"
  by (auto simp: dec_int_def)

lemma length_dec_int: "0 \<le> i \<Longrightarrow> i \<le> 2147483647 \<Longrightarrow> length (dec_int i) \<le> 10"
  using length_dec_le [of "nat i" 10] by (simp add: dec_int_def)

section \<open>Properties\<close>

text \<open>
  C28. The pool is fair: from any state it reaches, as many calls of \<open>getNextLoop\<close> as it has loops
  return every loop as often as it is in the pool, in the order of the pool, without ever leaving
  the vector; without threads every call returns the base loop.
\<close>

theorem getNextLoop_round_robin:
  assumes "pool_inv p"
  shows "if tp_loops p = [] then getNextLoop p = Inr (tp_baseLoop p, p)
     else \<exists>p'. next_loops (length (tp_loops p)) p = Inr (rotate (nat (tp_next p)) (tp_loops p), p') \<and>
            pool_inv p'"
proof (cases "tp_loops p = []")
  case False
  with assms have "nat (tp_next p) < length (tp_loops p)" by (auto simp: pool_inv_def)
  with next_loops_result [OF assms False, of "length (tp_loops p)"] False show ?thesis
    by (simp add: full_turn)
qed (simp add: getNextLoop_def)

theorem getNextLoop_round_robin_witness:
  "\<exists>p'. next_loops 3 ((EventLoopThreadPool_new 1 ''pool'')\<lparr>tp_loops := [5, 6, 7], tp_next := 2\<rparr>) =
     Inr ([7, 5, 6], p')"
  using getNextLoop_round_robin [of "(EventLoopThreadPool_new 1 ''pool'')\<lparr>tp_loops := [5, 6, 7], tp_next := 2\<rparr>"]
  by (auto simp: pool_inv_def EventLoopThreadPool_new_def numeral_2_eq_2 numeral_3_eq_3
      simp del: next_loops.simps)

text \<open>
  The threads of a pool have distinct names: none is cut by the buffer, whatever the name of
  the pool.
\<close>

lemma pool_thread_names_distinct:
  assumes "0 \<le> i" and "i \<le> 2147483647" and "0 \<le> j" and "j \<le> 2147483647"
  shows "pool_thread_name p i = tp_name p @ dec_int i \<and>
      (pool_thread_name p i = pool_thread_name p j \<longleftrightarrow> i = j)"
proof -
  have "pool_thread_name p k = tp_name p @ dec_int k" if "0 \<le> k" "k \<le> 2147483647" for k
    using length_dec_int [OF that] by (simp add: pool_thread_name_def)
  with assms show ?thesis by (simp add: dec_int_inject)
qed

end
