(* ===== verification/Tcp_Server.thy ===== *)
theory Tcp_Server
  imports Tcp_Connection Loop_Thread_Pool
begin

text \<open>
  include/tcp_server.hpp, ZTcpServer/tcp_server.cpp: the server, its map of connections, the
  accepting of new ones and the removal of closed ones. The process has one server, in
  \<open>sw_server\<close>; the functions bound to its address fail when it is gone.

  Here the model is closed: \<open>run_callback\<close> says what each callback of a channel does and
  \<open>run_task\<close> what each queued function does, and \<open>server_round\<close> is one round of a loop with them.
  The functions of the program that uses the library stay a parameter.
\<close>

section \<open>State\<close>

record tcp_server =
  sv_loop :: loop_ptr
  sv_ipPort :: string
  sv_name :: string
  sv_acceptor :: acceptor
  sv_threadPool :: thread_pool
  sv_connectionCallback :: "conn_fn option"
  sv_messageCallback :: "conn_fn option"
  sv_writeCompleteCallback :: "conn_fn option"
  sv_threadInitCallback :: "nat option"
  sv_started :: int
  sv_nextConnId :: int
  sv_connections :: "string \<rightharpoonup> conn_ptr"

record server_world = conn_world +
  sw_server :: "tcp_server option"

definition the_server :: "'a server_world_scheme \<Rightarrow> cpp_error + tcp_server" where
  "the_server w = (case sw_server w of None \<Rightarrow> Inl UseAfterFree | Some s \<Rightarrow> Inr s)"

definition put_server :: "tcp_server \<Rightarrow> 'a server_world_scheme \<Rightarrow> 'a server_world_scheme" where
  "put_server s w = w\<lparr>sw_server := Some s\<rparr>"

section \<open>Construction and start\<close>

definition CheckNoNull :: "loop_ptr \<Rightarrow> 'a io_state_scheme \<Rightarrow> 'a io_state_scheme" where
  "CheckNoNull l w = (if l = 0 then note_log FATAL ''mainLoop is null!'' w else w)"

declare CheckNoNull_def [simp]

text \<open>The parameter \<open>option\<close> is not used: \<open>kReusePort\<close> (which converts to true) goes to the acceptor.\<close>

definition TcpServer_new ::
    "os \<Rightarrow> loop_ptr \<Rightarrow> sockaddr_in \<Rightarrow> string \<Rightarrow> bool \<Rightarrow> 'a server_world_scheme \<Rightarrow>
     cpp_error + 'a server_world_scheme" where
  "TcpServer_new os l addr nameArg option w =
     (let w = CheckNoNull l w
      in bindE (toInPort addr) (\<lambda>ipPort.
           let (a, w) = Acceptor_new os l addr True w
           in Inr (put_server
             \<lparr>sv_loop = l, sv_ipPort = ipPort, sv_name = nameArg,
              sv_acceptor = setNewConnectionCallback a,
              sv_threadPool = EventLoopThreadPool_new l nameArg,
              sv_connectionCallback = None, sv_messageCallback = None,
              sv_writeCompleteCallback = None, sv_threadInitCallback = None,
              sv_started = 0, sv_nextConnId = 1, sv_connections = Map.empty\<rparr> w)))"

definition setThreadNum :: "int \<Rightarrow> tcp_server \<Rightarrow> tcp_server" where
  "setThreadNum n s = s\<lparr>sv_threadPool := pool_setThreadNum n (sv_threadPool s)\<rparr>"

definition setServerCallbacks ::
    "conn_fn option \<Rightarrow> conn_fn option \<Rightarrow> conn_fn option \<Rightarrow> nat option \<Rightarrow> tcp_server \<Rightarrow> tcp_server" where
  "setServerCallbacks conn msg complete init s =
     s\<lparr>sv_connectionCallback := conn, sv_messageCallback := msg,
       sv_writeCompleteCallback := complete, sv_threadInitCallback := init\<rparr>"

text \<open>\<open>Acceptor::listen\<close> on the acceptor of the server.\<close>

definition server_listen ::
    "os \<Rightarrow> 'a server_world_scheme \<Rightarrow> cpp_error + 'a server_world_scheme" where
  "server_listen os w =
     bindE (the_server w) (\<lambda>s.
     bindE (acceptor_listen os (sv_acceptor s) w) (\<lambda>(a, w).
       Inr (put_server (s\<lparr>sv_acceptor := a\<rparr>) w)))"

definition server_start ::
    "bool \<Rightarrow> os \<Rightarrow>
     (nat \<Rightarrow> loop_ptr \<Rightarrow> 'a server_world_scheme \<Rightarrow> cpp_error + 'a server_world_scheme) \<Rightarrow>
     'a server_world_scheme \<Rightarrow> cpp_error + 'a server_world_scheme" where
  "server_start muduo_use_poll os on_init w =
     bindE (the_server w) (\<lambda>s.
       let w = put_server (s\<lparr>sv_started := atomic_increment (sv_started s)\<rparr>) w
       in if sv_started s = 0 then
            bindE (pool_start muduo_use_poll os on_init (sv_threadInitCallback s) (sv_threadPool s) w)
              (\<lambda>(pool, w).
            bindE (the_server w) (\<lambda>s.
            runInLoop os (sv_loop s) AcceptorListen (server_listen os)
              (put_server (s\<lparr>sv_threadPool := pool\<rparr>) w)))
          else Inr w)"

section \<open>Connections\<close>

definition conn_name :: "tcp_server \<Rightarrow> int \<Rightarrow> string" where
  "conn_name s i = sv_name s @ snprintf 64 (''-'' @ sv_ipPort s @ ''#'' @ dec_int i)"

definition local_address ::
    "os \<Rightarrow> int \<Rightarrow> 'a io_state_scheme \<Rightarrow> sockaddr_in \<times> 'a io_state_scheme" where
  "local_address os sockfd w =
     (case os_sockname os (io_trace w) sockfd of
        Inl e \<Rightarrow> (\<lparr>sin_family = 0, sin_port = 0, sin_addr = 0\<rparr>,
                  note_log ERROR ''sockets::getLocalAddr'' (w\<lparr>io_errno := e\<rparr>))
      | Inr local \<Rightarrow> (local, w))"

definition newConnection ::
    "('a server_world_scheme) callbacks \<Rightarrow> os \<Rightarrow> int \<Rightarrow> sockaddr_in \<Rightarrow> 'a server_world_scheme \<Rightarrow>
     cpp_error + 'a server_world_scheme" where
  "newConnection cbs os sockfd peerAddr w =
     bindE (the_server w) (\<lambda>s.
     bindE (getNextLoop (sv_threadPool s)) (\<lambda>(ioLoop, pool).
       let name = conn_name s (sv_nextConnId s)
       in if sv_nextConnId s = 2147483647 then Inl SignedOverflow
          else
            (let (localAddr, w) = local_address os sockfd w
             in bindE (TcpConnection_new os ioLoop name sockfd localAddr peerAddr w) (\<lambda>(c, w).
                bindE (derefE (tw_conns w) c) (\<lambda>conn.
                  let w = put_server (s\<lparr>sv_threadPool := pool, sv_nextConnId := sv_nextConnId s + 1,
                            sv_connections := (sv_connections s)(name \<mapsto> c)\<rparr>) w;
                      conn = setConnectionCallback (sv_connectionCallback s) conn;
                      conn = setMessageCallback (sv_messageCallback s) conn;
                      conn = setWriteCompleteCallback (sv_writeCompleteCallback s) conn;
                      conn = setConnCloseCallback (Some ServerRemoveConnection) conn
                  in runInLoop os ioLoop (ConnectEstablished c) (connectEstablished cbs os c)
                       (put_conn c conn w))))))"

definition removeConnectionInPool ::
    "os \<Rightarrow> conn_ptr \<Rightarrow> 'a server_world_scheme \<Rightarrow> cpp_error + 'a server_world_scheme" where
  "removeConnectionInPool os c w =
     bindE (the_server w) (\<lambda>s.
     bindE (derefE (tw_conns w) c) (\<lambda>conn.
       queueInLLoop os (tc_loop conn) (ConnectDestroyed c)
         (put_server (s\<lparr>sv_connections := (sv_connections s)(tc_name conn := None)\<rparr>) w)))"

definition removeConnection ::
    "os \<Rightarrow> conn_ptr \<Rightarrow> 'a server_world_scheme \<Rightarrow> cpp_error + 'a server_world_scheme" where
  "removeConnection os c w =
     bindE (the_server w) (\<lambda>s.
       runInLoop os (sv_loop s) (RemoveConnectionInPool c) (removeConnectionInPool os c) w)"

section \<open>What callbacks and tasks do\<close>

text \<open>The close callback a server sets is its own; all others belong to the user.\<close>

definition server_callbacks ::
    "('a server_world_scheme) callbacks \<Rightarrow> os \<Rightarrow> ('a server_world_scheme) callbacks" where
  "server_callbacks user os = user\<lparr>on_close := (\<lambda>f c w.
     case f of ServerRemoveConnection \<Rightarrow> removeConnection os c w | UserFn n \<Rightarrow> on_close user f c w)\<rparr>"

definition server_acceptRead ::
    "('a server_world_scheme) callbacks \<Rightarrow> os \<Rightarrow> 'a server_world_scheme \<Rightarrow>
     cpp_error + 'a server_world_scheme" where
  "server_acceptRead cbs os w =
     bindE (the_server w) (\<lambda>s.
       acceptor_handleRead os (newConnection cbs os)
         \<lparr>sin_family = AF_INET, sin_port = htons 0, sin_addr = 16777343\<rparr> (sv_acceptor s) w)"

fun run_callback ::
    "('a server_world_scheme) callbacks \<Rightarrow> os \<Rightarrow> chan_cb \<Rightarrow> timestamp \<Rightarrow> 'a server_world_scheme \<Rightarrow>
     cpp_error + 'a server_world_scheme" where
  "run_callback user os (LoopWakeup l) t w = loop_handleRead os l w"
| "run_callback user os AcceptorRead t w = server_acceptRead (server_callbacks user os) os w"
| "run_callback user os (ConnRead c) t w = handleRead (server_callbacks user os) os t c w"
| "run_callback user os (ConnWrite c) t w = handleWrite os c w"
| "run_callback user os (ConnClose c) t w = handleClose (server_callbacks user os) os c w"
| "run_callback user os (ConnError c) t w = handleError os c w"

fun run_task ::
    "('a server_world_scheme) callbacks \<Rightarrow> os \<Rightarrow> task \<Rightarrow> 'a server_world_scheme \<Rightarrow>
     cpp_error + 'a server_world_scheme" where
  "run_task user os (SendInLoop c data len) w = sendInLoop os c data len w"
| "run_task user os (ShutdownInLoop c) w = shutdownInLoop os c w"
| "run_task user os (WriteComplete f c) w = on_writeComplete user f c w"
| "run_task user os (HighWaterMark f c n) w = on_highWaterMark user f c n w"
| "run_task user os (ConnectEstablished c) w = connectEstablished (server_callbacks user os) os c w"
| "run_task user os (ConnectDestroyed c) w = connectDestroyed (server_callbacks user os) os c w"
| "run_task user os AcceptorListen w = server_listen os w"
| "run_task user os (RemoveConnectionInPool c) w = removeConnectionInPool os c w"
| "run_task user os (UserTask n) w = on_task user n w"

section \<open>Ownership\<close>

text \<open>
  The owners of a connection are the map of the server and the queued functions that hold a
  \<open>shared_ptr\<close>. (A raw \<open>this\<close> does not own.) During a round the loop owns what it is working on; at
  its end the connections without an owner are destroyed.
\<close>

fun task_owns :: "task \<Rightarrow> conn_ptr option" where
  "task_owns (WriteComplete f c) = Some c"
| "task_owns (HighWaterMark f c n) = Some c"
| "task_owns (ConnectEstablished c) = Some c"
| "task_owns (ConnectDestroyed c) = Some c"
| "task_owns (RemoveConnectionInPool c) = Some c"
| "task_owns _ = None"

definition owned :: "'a server_world_scheme \<Rightarrow> conn_ptr \<Rightarrow> bool" where
  "owned w c \<longleftrightarrow>
     (case (sw_server w, tw_conns w c) of
        (Some s, Some conn) \<Rightarrow> sv_connections s (tc_name conn) = Some c
      | _ \<Rightarrow> False) \<or>
     list_ex (\<lambda>l. list_ex (\<lambda>t. task_owns t = Some c) (pending l w)) [0..<lw_next w]"

definition release_conn ::
    "os \<Rightarrow> conn_ptr \<Rightarrow> 'a server_world_scheme \<Rightarrow> cpp_error + 'a server_world_scheme" where
  "release_conn os c w =
     (if tw_conns w c \<noteq> None \<and> \<not> owned w c then TcpConnection_delete os c w else Inr w)"

definition release_unowned ::
    "os \<Rightarrow> 'a server_world_scheme \<Rightarrow> cpp_error + 'a server_world_scheme" where
  "release_unowned os w = foldE (release_conn os) [0..<lw_next w] w"

definition conn_alive :: "'a server_world_scheme \<Rightarrow> conn_ptr \<Rightarrow> bool" where
  "conn_alive w c \<longleftrightarrow> tw_conns w c \<noteq> None"

text \<open>One round of the loop \<open>l\<close>, in its own thread.\<close>

definition server_round ::
    "('a server_world_scheme) callbacks \<Rightarrow> os \<Rightarrow> loop_ptr \<Rightarrow> 'a server_world_scheme \<Rightarrow>
     cpp_error + 'a server_world_scheme" where
  "server_round user os l w =
     bindE (loop_iteration os conn_alive (run_callback user os) (run_task user os) l w)
       (release_unowned os)"

text \<open>
  The destructor, for the order in which the map is traversed, and those of the members.
\<close>

definition TcpServer_delete ::
    "('a server_world_scheme) callbacks \<Rightarrow> os \<Rightarrow> string list \<Rightarrow> 'a server_world_scheme \<Rightarrow>
     cpp_error + 'a server_world_scheme" where
  "TcpServer_delete user os order w =
     bindE (the_server w) (\<lambda>s.
     bindE (foldE (\<lambda>name w.
              case sv_connections s name of
                None \<Rightarrow> Inr w
              | Some c \<Rightarrow>
                  bindE (derefE (tw_conns w) c) (\<lambda>conn.
                    runInLoop os (tc_loop conn) (ConnectDestroyed c)
                      (connectDestroyed (server_callbacks user os) os c) w)) order w) (\<lambda>w.
     bindE (pool_delete os (sv_threadPool s) w) (\<lambda>w.
     bindE (Acceptor_delete os (sv_acceptor s) w) (\<lambda>w.
     bindE (release_unowned os (w\<lparr>sw_server := None\<rparr>)) Inr))))"

end
