(* ===== verification/Connection_Facts.thy ===== *)
theory Connection_Facts
  imports Tcp_Connection
begin

text \<open>
  What the operations of a connection leave alone, and what they keep: the locale
  \<open>connection_contract\<close> proves of any relation that holds of the elementary steps that it holds of
  every operation. Its first instance is the contract \<open>extends\<close> of what a loop calls.
\<close>

section \<open>Frames\<close>

lemma conn_more:
  "loop_world.more w' = loop_world.more w \<longleftrightarrow>
     tw_conns w' = tw_conns w \<and> tw_strs w' = tw_strs w \<and> conn_world.more w' = conn_world.more w"
  by (cases w; cases w') simp

lemma put_conn_simps [simp]:
  "tw_conns (put_conn c conn w) = (tw_conns w)(c \<mapsto> conn)"
  "tw_strs (put_conn c conn w) = tw_strs w"
  "cw_channels (put_conn c conn w) = cw_channels w"
  "lw_loops (put_conn c conn w) = lw_loops w"
  "lw_next (put_conn c conn w) = lw_next w"
  "lw_loopInThisThread (put_conn c conn w) = lw_loopInThisThread w"
  "lw_numCreated (put_conn c conn w) = lw_numCreated w"
  "io_trace (put_conn c conn w) = io_trace w"
  "io_errno (put_conn c conn w) = io_errno w"
  "io_log (put_conn c conn w) = io_log w"
  "io_tid (put_conn c conn w) = io_tid w"
  "conn_world.more (put_conn c conn w) = conn_world.more w"
  by (simp_all add: put_conn_def)

lemma conn_frame [simp]:
  "tw_conns (put_channel p ch w) = tw_conns w" "tw_strs (put_channel p ch w) = tw_strs w"
  "conn_world.more (put_channel p ch w) = conn_world.more w"
  "tw_conns (put_loop l lp w) = tw_conns w" "tw_strs (put_loop l lp w) = tw_strs w"
  "conn_world.more (put_loop l lp w) = conn_world.more w"
  "tw_conns (note_event e w) = tw_conns w" "tw_strs (note_event e w) = tw_strs w"
  "conn_world.more (note_event e w) = conn_world.more w"
  "tw_conns (note_log lv m w) = tw_conns w" "tw_strs (note_log lv m w) = tw_strs w"
  "conn_world.more (note_log lv m w) = conn_world.more w"
  by (simp_all add: put_channel_def put_loop_def note_event_def note_log_def)

lemma extends_put_conn [simp, intro]:
  "extends w v \<Longrightarrow> extends w (put_conn c conn v)"
proof (rule extends_trans)
  show "extends v (put_conn c conn v)"
    by (simp add: extends_def grows_def addr_ok_def keeps_channels_def)
qed

lemma extends_put_connD: "extends (put_conn c conn w) v \<Longrightarrow> extends w v"
  by (rule extends_trans [OF extends_put_conn [OF extends_refl]])

lemma extends_note_logD: "extends (note_log lv m w) v \<Longrightarrow> extends w v"
  by (rule extends_trans [OF extends_basic(2)])

lemma extends_errnoD: "extends (w\<lparr>io_errno := n\<rparr>) v \<Longrightarrow> extends w v"
  by (rule extends_trans [OF extends_basic(3)])

text \<open>Steps that only talk to the kernel, without closing or registering a descriptor.\<close>

fun harmless :: "io_event \<Rightarrow> bool" where
  "harmless (Did (EpollCtl e op f ev c) r) = False"
| "harmless (Did (CloseFd f) r) = False"
| "harmless _ = True"

definition quiet_step :: "'a chan_world_scheme \<Rightarrow> 'a chan_world_scheme \<Rightarrow> bool" where
  "quiet_step w w' \<longleftrightarrow> cw_channels w' = cw_channels w \<and> chan_world.more w' = chan_world.more w \<and>
     io_tid w' = io_tid w \<and> (\<exists>evs. io_trace w' = io_trace w @ evs \<and> (\<forall>ev \<in> set evs. harmless ev))"

lemma quiet_steps [simp, intro]:
  "quiet_step w w" "quiet_step w (note_log lv m w)" "quiet_step w (w\<lparr>io_errno := n\<rparr>)"
  "harmless ev \<Longrightarrow> quiet_step w (note_event ev w)"
  "harmless ev \<Longrightarrow> quiet_step w (note_event ev (w\<lparr>io_errno := n\<rparr>))"
  by (simp_all add: quiet_step_def)

lemma quiet_step_trans: "quiet_step u v \<Longrightarrow> quiet_step v w \<Longrightarrow> quiet_step u w"
  unfolding quiet_step_def by (metis (no_types, lifting) Un_iff append.assoc set_append)

lemma quiet_calls:
  "sys_write os f bytes w = (n, w') \<Longrightarrow> quiet_step w w'"
  "sys_read os f room w = (n, got, w') \<Longrightarrow> quiet_step w w'"
  "readFd os f b w = Inr (n, e, b', w') \<Longrightarrow> quiet_step w w'"
  "writeFd os f b w = Inr (n, e, w') \<Longrightarrow> quiet_step w w'"
  "quiet_step w (shutdownWrite os f w)"
proof -
  show step_wr: "sys_write os f bytes w = (n, w') \<Longrightarrow> quiet_step w w'" for f bytes w n w'
    by (cases rule: sys_write_cases [of os f bytes w]) auto
  show step_rd: "sys_read os f room w = (n, got, w') \<Longrightarrow> quiet_step w w'" for f room w n got w'
    by (cases rule: sys_read_cases [of os f room w]) auto
  have step_wr': "quiet_step w (snd (sys_write os f bytes w))" for f bytes w
    using step_wr [of f bytes w] by (metis prod.collapse)
  have step_rd': "quiet_step w (snd (snd (sys_read os f room w)))" for f room w
    using step_rd [of f room w] by (metis prod.collapse)
  show "readFd os f b w = Inr (n, e, b', w') \<Longrightarrow> quiet_step w w'"
    by (auto simp: readFd_def Let_def bind_simps split_beta split: if_splits
        intro: step_rd')
  show "writeFd os f b w = Inr (n, e, w') \<Longrightarrow> quiet_step w w'"
    by (auto simp: writeFd_def Let_def bind_simps split_beta split: if_splits
        intro: step_wr')
  have step: "quiet_step w v" if "sys_call os (ShutdownWr f) w = (n, v)" for n v
    using that by (cases rule: sys_call_cases [of os "ShutdownWr f" w]) auto
  show "quiet_step w (shutdownWrite os f w)"
    by (auto simp: shutdownWrite_def split: prod.splits intro: step quiet_step_trans [OF step])
qed

lemma quiet_io_step: "quiet_step w w' \<Longrightarrow> io_step w w'"
  by (auto simp: quiet_step_def io_step_def keeps_channels_eq)

text \<open>\<open>handleError\<close> logs, and a failing \<open>getsockopt\<close> sets \<open>errno\<close>.\<close>

lemma handleError_result:
  assumes "handleError os c w = Inr w'"
  obtains m e where "w' = note_log ERROR m (w\<lparr>io_errno := e\<rparr>)"
proof -
  from assms obtain conn ch where conn: "tw_conns w c = Some conn" "cw_channels w (tc_channel conn) = Some ch"
    by (auto simp: handleError_def bind_simps)
  have "\<exists>m e. w' = note_log ERROR m (w\<lparr>io_errno := e\<rparr>)"
  proof (cases "os_sockerror os (io_trace w) (ch_fd ch)")
    case (Inl e)
    with assms conn have "w' = note_log ERROR (error_text (tc_name conn) e) (w\<lparr>io_errno := e\<rparr>)"
      by (simp add: handleError_def)
    then show ?thesis by blast
  next
    case (Inr e)
    with assms conn
    have "w' = note_log ERROR (error_text (tc_name conn) e) (w\<lparr>io_errno := io_errno w\<rparr>)"
      by (simp add: handleError_def)
    then show ?thesis by blast
  qed
  then show ?thesis using that by blast
qed

section \<open>The contract, for any relation of worlds\<close>

text \<open>
  What the functions of a connection do is made of a few kinds of steps. A relation that holds of
  each kind, and is transitive, holds of every function, provided it holds of the callbacks.
\<close>

definition same_home :: "connection \<Rightarrow> connection \<Rightarrow> bool" where
  "same_home conn conn' \<longleftrightarrow>
     tc_loop conn' = tc_loop conn \<and> tc_name conn' = tc_name conn \<and> tc_socket conn' = tc_socket conn \<and>
     tc_channel conn' = tc_channel conn \<and>
     (buf_inv (tc_inputBuffer conn) \<longrightarrow> buf_inv (tc_inputBuffer conn')) \<and>
     (buf_inv (tc_outputBuffer conn) \<longrightarrow> buf_inv (tc_outputBuffer conn'))"

definition callbacks_in ::
    "('a conn_world_scheme \<Rightarrow> 'a conn_world_scheme \<Rightarrow> bool) \<Rightarrow> ('a conn_world_scheme) callbacks \<Rightarrow> bool" where
  "callbacks_in R cbs \<longleftrightarrow>
     (\<forall>f c w w'. on_connection cbs f c w = Inr w' \<longrightarrow> R w w') \<and>
     (\<forall>f c t w w'. on_message cbs f c t w = Inr w' \<longrightarrow> R w w') \<and>
     (\<forall>f c w w'. on_writeComplete cbs f c w = Inr w' \<longrightarrow> R w w') \<and>
     (\<forall>f c n w w'. on_highWaterMark cbs f c n w = Inr w' \<longrightarrow> R w w') \<and>
     (\<forall>f c w w'. on_close cbs f c w = Inr w' \<longrightarrow> R w w') \<and>
     (\<forall>n w w'. on_task cbs n w = Inr w' \<longrightarrow> R w w')"

lemma callbacks_inD:
  assumes ok: "callbacks_in R cbs"
  shows "on_connection cbs f c w = Inr w' \<Longrightarrow> R w w'"
    "on_message cbs f c t w = Inr w' \<Longrightarrow> R w w'"
    "on_writeComplete cbs f c w = Inr w' \<Longrightarrow> R w w'"
    "on_highWaterMark cbs f c n w = Inr w' \<Longrightarrow> R w w'"
    "on_close cbs f c w = Inr w' \<Longrightarrow> R w w'"
    "on_task cbs k w = Inr w' \<Longrightarrow> R w w'"
  by (use ok [unfolded callbacks_in_def] in metis)+

lemma queueInLLoop_conns:
  "queueInLLoop os l t w = Inr w' \<Longrightarrow> tw_conns w' = tw_conns w"
  by (auto simp: queueInLLoop_def wakeup_def bind_simps Let_def sys_write_def
      split: if_splits prod.splits sum.splits)

locale connection_contract =
  fixes R :: "'a conn_world_scheme \<Rightarrow> 'a conn_world_scheme \<Rightarrow> bool"
  assumes refl: "R w w" and trans: "R u v \<Longrightarrow> R v w \<Longrightarrow> R u w"
    and quiet: "quiet_step w w' \<Longrightarrow> R w w'"
    and update: "tw_conns w c = Some conn \<Longrightarrow> same_home conn conn' \<Longrightarrow> R w (put_conn c conn' w)"
    and tied: "cw_channels w p = Some ch \<Longrightarrow> R w (put_channel p (tie c ch) w)"
    and operation: "run_channel_op os op p w = Inr w' \<Longrightarrow> R w w'"
    and queue: "queueInLLoop os l t w = Inr w' \<Longrightarrow> R w w'"
begin

lemma steps:
  "R w (note_log lv m w)" "R w (w\<lparr>io_errno := n\<rparr>)"
  "sys_write os f bytes w = (n', w') \<Longrightarrow> R w w'"
  "writeFd os f b w = Inr (n', e, w') \<Longrightarrow> R w w'"
  "R w (shutdownWrite os f w)"
  by (auto intro: quiet quiet_calls)

lemma channel_steps:
  "enableReading os p w = Inr w' \<Longrightarrow> R w w'" "disableReading os p w = Inr w' \<Longrightarrow> R w w'"
  "enableWriting os p w = Inr w' \<Longrightarrow> R w w'" "disableWriting os p w = Inr w' \<Longrightarrow> R w w'"
  "disableAll os p w = Inr w' \<Longrightarrow> R w w'" "channel_remove os p w = Inr w' \<Longrightarrow> R w w'"
  using operation [of os EnableReading] operation [of os DisableReading]
    operation [of os EnableWriting] operation [of os DisableWriting]
    operation [of os DisableAll] operation [of os Remove] by simp_all

lemma setState_R: "setState st c w = Inr w' \<Longrightarrow> R w w'"
  by (auto simp: setState_def bind_simps same_home_def intro!: update)

lemma runInLoop_R:
  "runInLoop os l t call w = Inr w' \<Longrightarrow> (\<And>v v'. call v = Inr v' \<Longrightarrow> R v v') \<Longrightarrow> R w w'"
  by (auto simp: runInLoop_def bind_simps split: if_splits intro: queue)

lemma invoke_R:
  "callbacks_in R cbs \<Longrightarrow> invoke_connection cbs c w = Inr w' \<Longrightarrow> R w w'"
  "callbacks_in R cbs \<Longrightarrow> invoke_close cbs c w = Inr w' \<Longrightarrow> R w w'"
  by (auto simp: invoke_connection_def invoke_close_def invoke_def bind_simps split: option.splits
      dest: callbacks_inD)

lemma send_directly_R:
  assumes "send_directly os c data len w = Inr (n, rem, fault, w')"
  shows "R w w'"
proof -
  from assms obtain conn ch where conn: "tw_conns w c = Some conn" "cw_channels w (tc_channel conn) = Some ch"
    by (auto simp: send_directly_def bind_simps)
  show ?thesis
  proof (cases "\<not> isWriting ch \<and> readableBytes (tc_outputBuffer conn) = 0")
    case True
    with assms conn obtain str where str: "tw_strs w data = Some str" "\<not> length (c_array str) < unat len"
      by (auto simp: send_directly_def bind_simps split: if_splits)
    obtain k v where v: "sys_write os (ch_fd ch) (take (unat len) (c_array str)) w = (k, v)" by fastforce
    with assms conn True str have "R v w'"
      by (auto simp: send_directly_def bind_simps split: if_splits option.splits
          intro: refl queue steps)
    with steps(3) [OF v] show ?thesis by (rule trans)
  next
    case False
    with assms conn show ?thesis by (auto simp: send_directly_def refl)
  qed
qed

lemma send_later_R:
  assumes "send_later os c data nwrote rem w = Inr w'"
  shows "R w w'"
proof -
  from assms obtain conn v str bytes outb ch where conn: "tw_conns w c = Some conn"
      and v: "v = w \<or> (\<exists>f n. queueInLLoop os (tc_loop conn) (HighWaterMark f c n) w = Inr v)"
      and outb: "append_bytes bytes rem (tc_outputBuffer conn) = Inr outb"
      and w': "(if isWriting ch then Inr (put_conn c (conn\<lparr>tc_outputBuffer := outb\<rparr>) v)
         else enableWriting os (tc_channel conn) (put_conn c (conn\<lparr>tc_outputBuffer := outb\<rparr>) v)) = Inr w'"
    by (auto simp: send_later_def bind_simps Let_def split: option.splits if_splits; metis)
  have "R w v" using v by (auto intro: refl queue)
  also have "tw_conns v c = Some conn" using v conn by (auto dest: queueInLLoop_conns)
  then have "R v (put_conn c (conn\<lparr>tc_outputBuffer := outb\<rparr>) v)"
    by (rule update) (use append_bytes_inv [OF _ outb] in \<open>simp add: same_home_def\<close>)
  moreover have "R (put_conn c (conn\<lparr>tc_outputBuffer := outb\<rparr>) v) w'"
    using w' by (auto split: if_splits intro: refl channel_steps)
  ultimately show ?thesis using \<open>R w v\<close> by (blast intro: trans)
qed

lemma sendInLoop_R: "sendInLoop os c data len w = Inr w' \<Longrightarrow> R w w'"
  by (auto simp: sendInLoop_def bind_simps Let_def split: if_splits
      dest!: send_directly_R send_later_R intro: trans trans [OF steps(1)])

lemma send_R: "send os buf c w = Inr w' \<Longrightarrow> R w w'"
  by (auto simp: send_def bind_simps Let_def split: if_splits
      dest: sendInLoop_R intro: runInLoop_R refl)

lemma shutdownInLoop_R: "shutdownInLoop os c w = Inr w' \<Longrightarrow> R w w'"
  by (auto simp: shutdownInLoop_def bind_simps intro: refl steps)

lemma shutdown_R: "shutdown os c w = Inr w' \<Longrightarrow> R w w'"
  by (auto simp: shutdown_def bind_simps split: if_splits
      dest!: setState_R runInLoop_R [OF _ shutdownInLoop_R] intro: refl trans)

lemma connectEstablished_R:
  assumes ok: "callbacks_in R cbs"
  shows "connectEstablished cbs os c w = Inr w' \<Longrightarrow> R w w'"
  by (auto simp: connectEstablished_def bind_simps
      dest!: setState_R channel_steps(1) invoke_R(1) [OF ok] trans [OF tied] intro: trans)

lemma connectDestroyed_R:
  assumes ok: "callbacks_in R cbs"
  shows "connectDestroyed cbs os c w = Inr w' \<Longrightarrow> R w w'"
  by (auto simp: connectDestroyed_def bind_simps split: if_splits
      dest!: setState_R channel_steps(5,6) invoke_R(1) [OF ok] intro: trans)

lemma handleClose_R:
  assumes ok: "callbacks_in R cbs"
  shows "handleClose cbs os c w = Inr w' \<Longrightarrow> R w w'"
  by (auto simp: handleClose_def bind_simps
      dest!: setState_R channel_steps(5) invoke_R [OF ok] intro: trans)

lemma handleError_R: "handleError os c w = Inr w' \<Longrightarrow> R w w'"
  by (auto elim!: handleError_result intro: trans [OF steps(2) steps(1)])

lemma handleRead_R:
  assumes ok: "callbacks_in R cbs" and run: "handleRead cbs os t c w = Inr w'"
  shows "R w w'"
proof -
  from run obtain conn ch n e inb v where conn: "tw_conns w c = Some conn"
      and ch: "cw_channels w (tc_channel conn) = Some ch"
      and rd: "readFd os (ch_fd ch) (tc_inputBuffer conn) w = Inr (n, e, inb, v)"
    by (auto simp: handleRead_def bind_simps)
  let ?v = "put_conn c (conn\<lparr>tc_inputBuffer := inb\<rparr>) v"
  have q: "quiet_step w v" using rd by (rule quiet_calls)
  then have "tw_conns v c = Some conn" using conn by (simp add: quiet_step_def loop_more conn_more)
  then have "R v ?v"
    by (rule update) (use readFd_inv [OF _ rd] in \<open>simp add: same_home_def\<close>)
  with quiet [OF q] have "R w ?v" by (rule trans)
  moreover have "R ?v w'"
    using run conn ch rd
    by (auto simp: handleRead_def bind_simps Let_def invoke_def split: if_splits option.splits
        dest!: handleClose_R [OF ok] handleError_R callbacks_inD(2) [OF ok]
        intro: trans trans [OF steps(1)] trans [OF steps(2) trans [OF steps(1)]])
  ultimately show ?thesis by (rule trans)
qed

lemma handleWrite_R:
  assumes run: "handleWrite os c w = Inr w'"
  shows "R w w'"
proof -
  from run obtain conn ch where conn: "tw_conns w c = Some conn" "cw_channels w (tc_channel conn) = Some ch"
    by (auto simp: handleWrite_def bind_simps)
  show ?thesis
  proof (cases "isWriting ch")
    case False
    with run conn show ?thesis by (auto simp: handleWrite_def intro: steps)
  next
    case True
    with run conn obtain n e v where wr: "writeFd os (ch_fd ch) (tc_outputBuffer conn) w = Inr (n, e, v)"
      by (auto simp: handleWrite_def bind_simps)
    let ?v = "put_conn c (conn\<lparr>tc_outputBuffer := retrieve (of_int n) (tc_outputBuffer conn)\<rparr>) v"
    have q: "quiet_step w v" using wr by (rule quiet_calls)
    then have "tw_conns v c = Some conn" using conn by (simp add: quiet_step_def loop_more conn_more)
    then have v: "R v ?v"
      by (rule update) (use retrieve_correct(1) in \<open>simp add: same_home_def\<close>)
    have "R ?v w' \<or> R v w'"
      using run conn True wr
      by (auto simp: handleWrite_def bind_simps Let_def split: if_splits option.splits
          dest!: handleError_R channel_steps(4) queue shutdownInLoop_R intro: refl trans trans [OF steps(1)])
    with v quiet [OF q] show ?thesis by (blast intro: trans)
  qed
qed

end

section \<open>The contract of the loop\<close>

lemma connection_contract_extends:
  "connection_contract (extends :: 'a conn_world_scheme \<Rightarrow> 'a conn_world_scheme \<Rightarrow> bool)"
proof
  show "run_channel_op os op p w = Inr w' \<Longrightarrow> extends w w'" for os op p and w w' :: "'a conn_world_scheme"
    by (cases op) (auto dest: channel_ops_extends)
qed (auto intro: extends_trans io_step_extends quiet_io_step queueInLLoop_extends)

interpretation ext: connection_contract extends
  by (rule connection_contract_extends)

abbreviation callbacks_ok :: "('a conn_world_scheme) callbacks \<Rightarrow> bool" where
  "callbacks_ok \<equiv> callbacks_in extends"

section \<open>New connections\<close>

text \<open>A channel at a free address.\<close>

lemma extends_alloc:
  assumes "lw_next w \<le> c" and "c < n"
  shows "extends w (put_channel c ch (w\<lparr>lw_next := n\<rparr>))"
  using assms by (auto simp: extends_def grows_def addr_ok_def keeps_channels_def
      dest: domI split: if_splits)
    (meson domI le_trans less_le_not_le nless_le order.strict_trans2)+

lemma Buffer_initial:
  obtains b where "Buffer_new kInitialSize = Inr b" and "buf_inv b" and "contents b = []"
    and "length (buf_data b) = 1032"
proof -
  have sum: "unat (kCheapPrepend + kInitialSize) = 1032"
    by (simp add: kCheapPrepend_def kInitialSize_def)
  then obtain b where b: "Buffer_new kInitialSize = Inr b" "length (buf_data b) = 1032"
    by (simp add: Buffer_new_def vector_of_zeros_def vec_max_def)
  from Buffer_new_correct [OF b(1)] b that show ?thesis
    by (simp add: kInitialSize_def vec_max_def)
qed

text \<open>What the constructor makes.\<close>

lemma TcpConnection_new_result:
  obtains w' conn ch where
    "TcpConnection_new os l name sockfd la pa w = Inr (lw_next w, w')"
    and "tw_conns w' = (tw_conns w)(lw_next w \<mapsto> conn)" and "tc_state conn = kConnecting"
    and "tc_loop conn = l" and "tc_name conn = name" and "tc_socket conn = sockfd"
    and "tc_channel conn = lw_next w + 1"
    and "buf_inv (tc_inputBuffer conn)" and "contents (tc_inputBuffer conn) = []"
    and "buf_inv (tc_outputBuffer conn)" and "contents (tc_outputBuffer conn) = []"
    and "cw_channels w' = (cw_channels w)(lw_next w + 1 \<mapsto> ch)"
    and "ch_loop ch = l" and "ch_fd ch = sockfd" and "ch_index ch = KNew" and "ch_events ch = 0"
    and "ch_ReadCallBack ch = Some (ConnRead (lw_next w))"
    and "ch_WriteCallBack ch = Some (ConnWrite (lw_next w))"
    and "ch_CloseCallBack ch = Some (ConnClose (lw_next w))"
    and "ch_ErrorCallBack ch = Some (ConnError (lw_next w))"
    and "lw_loops w' = lw_loops w" and "lw_next w' = lw_next w + 2" and "tw_strs w' = tw_strs w"
    and "conn_world.more w' = conn_world.more w" and "io_tid w' = io_tid w"
    and "\<exists>r. io_trace w' = io_trace w @ [Did (SetSockOpt sockfd SO_KEEPALIVE 1) r]"
    and "extends w w'"
    and "length (buf_data (tc_inputBuffer conn)) = 1032" and "length (buf_data (tc_outputBuffer conn)) = 1032"
proof -
  define w0 where "w0 = (if l = 0 then note_log FATAL ''mainLoop is null!'' w else w)"
  have w0: "lw_next w0 = lw_next w" "lw_loops w0 = lw_loops w" "tw_conns w0 = tw_conns w"
      "tw_strs w0 = tw_strs w" "cw_channels w0 = cw_channels w" "io_trace w0 = io_trace w"
      "io_tid w0 = io_tid w" "conn_world.more w0 = conn_world.more w"
    by (simp_all add: w0_def)
  let ?c = "lw_next w"
  let ?ch = "setErrorCallback (ConnError ?c) (setCloseCallback (ConnClose ?c)
      (setWriteCallback (ConnWrite ?c) (setReadCallback (ConnRead ?c) (Channel_new l sockfd))))"
  obtain b where b: "Buffer_new kInitialSize = Inr b" "buf_inv b" "contents b = []"
      "length (buf_data b) = 1032"
    by (rule Buffer_initial)
  define conn where "conn = \<lparr>tc_loop = l, tc_name = name, tc_state = kConnecting, tc_reading = True,
                 tc_socket = sockfd, tc_channel = ?c + 1, tc_localAddr = la,
                 tc_peerAddr = pa, tc_connectionCallback = None, tc_messageCallback = None,
                 tc_writeCompleteCallback = None, tc_highWaterMarkCallback = None,
                 tc_closeCallback = None, tc_highWaterMask = 64 * 1024 * 1024,
                 tc_inputBuffer = b, tc_outputBuffer = b\<rparr>"
  let ?v = "put_conn ?c conn (put_channel (?c + 1) ?ch (w0\<lparr>lw_next := ?c + 2\<rparr>))"
  obtain r w' where r: "sys_call os (SetSockOpt sockfd SO_KEEPALIVE 1) ?v = (r, w')" by fastforce
  have w': "io_step ?v w'" "chan_world.more w' = chan_world.more ?v"
      "\<exists>r. io_trace w' = io_trace ?v @ [Did (SetSockOpt sockfd SO_KEEPALIVE 1) r]"
      "cw_channels w' = cw_channels ?v" "io_tid w' = io_tid ?v"
    using sys_step(3) [OF r] r
    by (cases rule: sys_call_cases [of os "SetSockOpt sockfd SO_KEEPALIVE 1" ?v]; auto)+
  have run: "TcpConnection_new os l name sockfd la pa w = Inr (?c, w')"
    using r b(1) unfolding TcpConnection_new_def CheckLoopNotNull_def w0_def [symmetric] Let_def
    by (simp add: conn_def option_setters set_option_def w0)
  have "extends w w0" by (simp add: w0_def)
  also have "extends w0 (put_channel (?c + 1) ?ch (w0\<lparr>lw_next := ?c + 2\<rparr>))"
    by (rule extends_alloc) (simp_all add: w0)
  also have "extends (put_channel (?c + 1) ?ch (w0\<lparr>lw_next := ?c + 2\<rparr>)) ?v" by simp
  also have "extends ?v w'" using w'(1) by (rule io_step_extends)
  finally have ext: "extends w w'" .
  have mores: "lw_loops w' = lw_loops w" "lw_next w' = ?c + 2" "tw_conns w' = (tw_conns w)(?c \<mapsto> conn)"
      "tw_strs w' = tw_strs w" "conn_world.more w' = conn_world.more w" "io_tid w' = io_tid w"
      "\<exists>r. io_trace w' = io_trace w @ [Did (SetSockOpt sockfd SO_KEEPALIVE 1) r]"
      "cw_channels w' = (cw_channels w)(?c + 1 \<mapsto> ?ch)"
    using w'(2-5) by (simp_all add: loop_more conn_more w0)
  show ?thesis
    by (rule that [OF run mores(3) _ _ _ _ _ _ _ _ _ mores(8) _ _ _ _ _ _ _ _ mores(1,2,4,5,6,7) ext])
      (simp_all add: conn_def b setErrorCallback_def setCloseCallback_def setWriteCallback_def
        setReadCallback_def Channel_new_def index_defs)
qed

end
