(* ===== verification/Server_Facts.thy ===== *)
theory Server_Facts
  imports Tcp_Server Connection_Facts
begin

text \<open>
  Every callback and every task of the server keeps the contract of the loop, when the functions
  of the user do. So the dispatcher (\<open>callback_runner\<close>) and the queue (\<open>task_runner\<close>) are
  interpreted on the whole program.
\<close>

section \<open>Frames\<close>

lemma server_more:
  "conn_world.more w' = conn_world.more w \<longleftrightarrow>
     sw_server w' = sw_server w \<and> server_world.more w' = server_world.more w"
  by (cases w; cases w') simp

lemma put_server_simps [simp]:
  "sw_server (put_server s w) = Some s"
  "tw_conns (put_server s w) = tw_conns w"
  "tw_strs (put_server s w) = tw_strs w"
  "cw_channels (put_server s w) = cw_channels w"
  "lw_loops (put_server s w) = lw_loops w"
  "lw_next (put_server s w) = lw_next w"
  "lw_loopInThisThread (put_server s w) = lw_loopInThisThread w"
  "lw_numCreated (put_server s w) = lw_numCreated w"
  "io_trace (put_server s w) = io_trace w"
  "io_errno (put_server s w) = io_errno w"
  "io_log (put_server s w) = io_log w"
  "io_tid (put_server s w) = io_tid w"
  by (simp_all add: put_server_def)

lemma server_frame [simp]:
  "sw_server (put_conn c conn w) = sw_server w"
  "sw_server (put_channel p ch w) = sw_server w"
  "sw_server (put_loop l lp w) = sw_server w"
  "sw_server (note_event e w) = sw_server w"
  "sw_server (note_log lv m w) = sw_server w"
  by (simp_all add: put_conn_def put_channel_def put_loop_def note_event_def note_log_def)

lemma the_server_Inr [simp, bind_simps]: "the_server w = Inr s \<longleftrightarrow> sw_server w = Some s"
  by (simp add: the_server_def split: option.splits)

lemma extends_put_server [simp, intro]: "extends w v \<Longrightarrow> extends w (put_server s v)"
proof (rule extends_trans)
  show "extends v (put_server s v)"
    by (simp add: extends_def grows_def addr_ok_def keeps_channels_def)
qed

lemma extends_put_serverD: "extends (put_server s w) v \<Longrightarrow> extends w v"
  by (rule extends_trans [OF extends_put_server [OF extends_refl]])

section \<open>The contract, for every callback and task\<close>

lemma local_address_step: "local_address os f w = (a, w') \<Longrightarrow> io_step w w'"
  by (auto simp: local_address_def split: sum.splits)

lemma removeConnectionInPool_extends: "removeConnectionInPool os c w = Inr w' \<Longrightarrow> extends w w'"
  by (auto simp: removeConnectionInPool_def bind_simps
      dest!: queueInLLoop_extends extends_put_serverD)

lemma removeConnection_extends: "removeConnection os c w = Inr w' \<Longrightarrow> extends w w'"
  by (auto simp: removeConnection_def bind_simps
      dest: runInLoop_extends [OF _ removeConnectionInPool_extends])

lemma server_callbacks_ok: "callbacks_ok user \<Longrightarrow> callbacks_ok (server_callbacks user os)"
  unfolding callbacks_in_def server_callbacks_def
  by (auto split: conn_fn.splits dest: removeConnection_extends)

lemma newConnection_extends:
  assumes ok: "callbacks_ok cbs" and run: "newConnection cbs os f peer w = Inr w'"
  shows "extends w w'"
proof -
  from run obtain s ioLoop pool where s: "sw_server w = Some s"
      "getNextLoop (sv_threadPool s) = Inr (ioLoop, pool)" "sv_nextConnId s \<noteq> 2147483647"
    by (auto simp: newConnection_def bind_simps Let_def split: if_splits)
  obtain la w1 where la: "local_address os f w = (la, w1)" by fastforce
  obtain w2 where w2: "TcpConnection_new os ioLoop (conn_name s (sv_nextConnId s)) f la peer w1 =
      Inr (lw_next w1, w2)" "extends w1 w2"
    by (rule TcpConnection_new_result)
  from run s la w2(1) obtain s' conn where
      "runInLoop os ioLoop (ConnectEstablished (lw_next w1))
         (connectEstablished cbs os (lw_next w1)) (put_conn (lw_next w1) conn (put_server s' w2)) = Inr w'"
    by (auto simp: newConnection_def bind_simps Let_def)
  then have "extends (put_conn (lw_next w1) conn (put_server s' w2)) w'"
    by (rule runInLoop_extends) (rule ext.connectEstablished_R [OF ok])
  then have "extends w2 w'" by (blast dest: extends_put_connD extends_put_serverD)
  with local_address_step [OF la, THEN io_step_extends] w2(2) show ?thesis
    by (blast intro: extends_trans)
qed

lemma server_acceptRead_extends:
  "callbacks_ok cbs \<Longrightarrow> server_acceptRead cbs os w = Inr w' \<Longrightarrow> extends w w'"
  by (auto simp: server_acceptRead_def bind_simps intro: acceptor_handleRead_extends newConnection_extends)

lemma server_listen_extends: "server_listen os w = Inr w' \<Longrightarrow> extends w w'"
  by (auto simp: server_listen_def bind_simps dest!: acceptor_listen_extends)

lemma run_callback_extends:
  assumes "callbacks_ok user" and "run_callback user os cb t w = Inr w'"
  shows "extends w w'"
  using assms(2) server_callbacks_ok [OF assms(1), of os]
  by (cases cb) (auto intro: loop_handleRead_extends server_acceptRead_extends ext.handleRead_R
      ext.handleWrite_R ext.handleClose_R ext.handleError_R)

lemma run_task_extends:
  assumes ok: "callbacks_ok user" and "run_task user os t w = Inr w'"
  shows "extends w w'"
  using assms(2) server_callbacks_ok [OF assms(1), of os] callbacks_inD [OF ok]
  by (cases t) (auto intro: ext.sendInLoop_R ext.shutdownInLoop_R ext.connectEstablished_R
      ext.connectDestroyed_R server_listen_extends removeConnectionInPool_extends)

section \<open>The program as client of the loop\<close>

text \<open>A program that uses the library: its functions keep the contract.\<close>

locale server_program =
  fixes user :: "('a server_world_scheme) callbacks" and os :: os
  assumes user_ok: "callbacks_ok user"

sublocale server_program \<subseteq> cb: callback_runner "run_callback user os" addr_ok
proof
  show "addr_ok w \<Longrightarrow> run_callback user os c t w = Inr w' \<Longrightarrow> keeps_channels w w' \<and> addr_ok w'" for c t w w'
    using run_callback_extends [OF user_ok] extendsD extends_keeps_channels by blast
qed

sublocale server_program \<subseteq> tk: task_runner "run_task user os"
  by unfold_locales (rule run_task_extends [OF user_ok])

end
