(* ===== verification/Echo_Server.thy ===== *)
theory Echo_Server
  imports Server_Facts
begin

text \<open>
  main.cpp: the echo server, the program of this repository that uses the library. Its two
  functions are \<open>UserFn 0\<close> (\<open>onConnection\<close>) and \<open>UserFn 1\<close> (\<open>onMessage\<close>); it sets no others. What it
  prints is not recorded.
\<close>

section \<open>The program\<close>

definition print_addresses :: "connection \<Rightarrow> cpp_error + (string \<times> string)" where
  "print_addresses conn =
     bindE (toInPort (tc_peerAddr conn)) (\<lambda>peer.
     bindE (toInPort (tc_localAddr conn)) (\<lambda>local. Inr (peer, local)))"

definition onConnection ::
    "os \<Rightarrow> conn_ptr \<Rightarrow> 'a conn_world_scheme \<Rightarrow> cpp_error + 'a conn_world_scheme" where
  "onConnection os c w =
     bindE (derefE (tw_conns w) c) (\<lambda>conn.
     bindE (print_addresses conn) (\<lambda>_.
       if connected conn then Inr w else shutdown os c w))"

text \<open>The local string \<open>res\<close> lives at a fresh address until the function returns.\<close>

definition onMessage ::
    "os \<Rightarrow> conn_ptr \<Rightarrow> timestamp \<Rightarrow> 'a conn_world_scheme \<Rightarrow> cpp_error + 'a conn_world_scheme" where
  "onMessage os c time w =
     bindE (derefE (tw_conns w) c) (\<lambda>conn.
     bindE (retrieveAllAsString (tc_inputBuffer conn)) (\<lambda>(text, inb).
       let res = lw_next w;
           w = put_conn c (conn\<lparr>tc_inputBuffer := inb\<rparr>)
                 (w\<lparr>lw_next := res + 1, tw_strs := (tw_strs w)(res \<mapsto> text)\<rparr>)
       in bindE (send os res c w) (\<lambda>w. Inr (w\<lparr>tw_strs := (tw_strs w)(res := None)\<rparr>))))"

definition echo_callbacks :: "os \<Rightarrow> ('a conn_world_scheme) callbacks" where
  "echo_callbacks os =
     \<lparr>on_connection = (\<lambda>f c w. if f = UserFn 0 then onConnection os c w else Inl BadFunctionCall),
      on_message = (\<lambda>f c t w. if f = UserFn 1 then onMessage os c t w else Inl BadFunctionCall),
      on_writeComplete = (\<lambda>f c w. Inl BadFunctionCall),
      on_highWaterMark = (\<lambda>f c n w. Inl BadFunctionCall),
      on_close = (\<lambda>f c w. Inl BadFunctionCall),
      on_task = (\<lambda>n w. Inl BadFunctionCall)\<rparr>"

definition EchoServer_new ::
    "os \<Rightarrow> loop_ptr \<Rightarrow> sockaddr_in \<Rightarrow> string \<Rightarrow> 'a server_world_scheme \<Rightarrow>
     cpp_error + 'a server_world_scheme" where
  "EchoServer_new os l listenAddr nameArg w =
     bindE (TcpServer_new os l listenAddr nameArg False w) (\<lambda>w.
     bindE (the_server w) (\<lambda>s.
       Inr (put_server (setThreadNum 2
              (setServerCallbacks (Some (UserFn 0)) (Some (UserFn 1)) None None s)) w)))"

definition EchoServer_start ::
    "bool \<Rightarrow> os \<Rightarrow> 'a server_world_scheme \<Rightarrow> cpp_error + 'a server_world_scheme" where
  "EchoServer_start muduo_use_poll os w =
     server_start muduo_use_poll os (\<lambda>f l w. Inl BadFunctionCall) w"

text \<open>\<open>main\<close> up to its call of \<open>loop()\<close>, and then that call.\<close>

definition main_setup ::
    "bool \<Rightarrow> os \<Rightarrow> (string \<Rightarrow> 32 word) \<Rightarrow> 'a server_world_scheme \<Rightarrow>
     cpp_error + (loop_ptr \<times> 'a server_world_scheme)" where
  "main_setup muduo_use_poll os inet_addr w =
     bindE (EventLoop_new muduo_use_poll os w) (\<lambda>(l, w).
     bindE (EchoServer_new os l (InetAddress_new inet_addr 9998 ''127.0.0.1'') ''EchoServer'' w) (\<lambda>w.
     bindE (EchoServer_start muduo_use_poll os w) (\<lambda>w. Inr (l, w))))"

definition main_loop ::
    "os \<Rightarrow> loop_ptr \<Rightarrow> 'a server_world_scheme \<Rightarrow> (cpp_error + 'a server_world_scheme) option" where
  "main_loop os l w = loop (server_round (echo_callbacks os) os l) l w"

section \<open>The echo server keeps the contract of the library\<close>

lemma print_addresses_total: "\<exists>x. print_addresses conn = Inr x"
  by (simp add: print_addresses_def toInPort_total)

lemma onConnection_extends: "onConnection os c w = Inr w' \<Longrightarrow> extends w w'"
  by (auto simp: onConnection_def bind_simps split: if_splits dest: ext.shutdown_R)

lemma extends_strs:
  "extends w v \<Longrightarrow> extends w (v\<lparr>tw_strs := ss\<rparr>)"
  by (auto simp: extends_def grows_def addr_ok_def keeps_channels_def)

lemma extends_alloc_str: "extends w (w\<lparr>lw_next := Suc (lw_next w), tw_strs := ss\<rparr>)"
  by (auto simp: extends_def grows_def addr_ok_def keeps_channels_def less_Suc_eq)

lemma onMessage_extends: "onMessage os c t w = Inr w' \<Longrightarrow> extends w w'"
  by (auto simp: onMessage_def bind_simps Let_def
      dest!: ext.send_R extends_put_connD extends_trans [OF extends_alloc_str] intro: extends_strs)

lemma echo_callbacks_ok: "callbacks_ok (echo_callbacks os)"
  by (auto simp: callbacks_in_def echo_callbacks_def split: if_splits
      dest: onConnection_extends onMessage_extends)

interpretation echo: server_program "echo_callbacks os" os for os
  by unfold_locales (rule echo_callbacks_ok)

end
