(* ===== verification/Connection_Behaviour.thy ===== *)
theory Connection_Behaviour
  imports Connection_Facts
begin

text \<open>
  What the operations of a connection do on each branch, against an abstract view of a connection
  as two byte streams: what it has sent is what the kernel took plus what waits in the output
  buffer, and what it has received is what the kernel delivered.
\<close>

section \<open>Results of the operations below\<close>

lemma set_index_masks [simp]:
  "isWriting (set_index i ch) = isWriting ch" "isReading (set_index i ch) = isReading ch"
  by (simp_all add: set_index_def isWriting_def isReading_def)

lemma registration_changes [simp]:
  "ch_loop (set_index i ch) = ch_loop ch" "ch_fd (set_index i ch) = ch_fd ch"
  "ch_loop (add_read ch) = ch_loop ch" "ch_fd (add_read ch) = ch_fd ch"
  "ch_loop (add_write ch) = ch_loop ch" "ch_fd (add_write ch) = ch_fd ch"
  "ch_loop (del_read ch) = ch_loop ch" "ch_fd (del_read ch) = ch_fd ch"
  "ch_loop (del_write ch) = ch_loop ch" "ch_fd (del_write ch) = ch_fd ch"
  "ch_loop (del_all ch) = ch_loop ch" "ch_fd (del_all ch) = ch_fd ch"
  by (simp_all add: channel_defs)

text \<open>Queueing always succeeds on a live loop; only its queue and its eventfd are touched.\<close>

definition wakeup_events :: "int \<Rightarrow> io_event list \<Rightarrow> bool" where
  "wakeup_events f evs \<longleftrightarrow> (\<forall>ev \<in> set evs. (\<exists>bs. ev = Wrote f bs) \<or> (\<exists>e. ev = WriteFailed f e))"

lemma wakeup_events_streams:
  assumes "wakeup_events f evs"
  shows "g \<noteq> f \<Longrightarrow> sent_bytes g evs = []" and "received_bytes g evs = []"
    and "\<forall>ev \<in> set evs. neutral_event e ev"
proof -
  show "g \<noteq> f \<Longrightarrow> sent_bytes g evs = []" and "received_bytes g evs = []"
    using assms by (induction evs) (auto simp: wakeup_events_def)
  show "\<forall>ev \<in> set evs. neutral_event e ev"
    using assms by (auto simp: wakeup_events_def)
qed

lemma queueInLLoop_result:
  assumes lp: "lw_loops w l = Some lp"
  obtains w' evs where "queueInLLoop os l t w = Inr w'"
    and "lw_loops w' = (lw_loops w)(l \<mapsto> lp\<lparr>el_pendingFunctors := el_pendingFunctors lp @ [t]\<rparr>)"
    and "cw_channels w' = cw_channels w" and "loop_world.more w' = loop_world.more w"
    and "lw_next w' = lw_next w" and "io_tid w' = io_tid w"
    and "io_trace w' = io_trace w @ evs" and "wakeup_events (el_wakeupFd lp) evs"
    and "el_threadId lp \<noteq> io_tid w \<or> el_callingPendingFunctors lp \<Longrightarrow> evs \<noteq> []"
    and "el_threadId lp = io_tid w \<and> \<not> el_callingPendingFunctors lp \<Longrightarrow> io_errno w' = io_errno w"
    and "el_threadId lp = io_tid w \<and> \<not> el_callingPendingFunctors lp \<Longrightarrow> evs = []"
proof -
  let ?lp = "lp\<lparr>el_pendingFunctors := el_pendingFunctors lp @ [t]\<rparr>"
  let ?w = "put_loop l ?lp w"
  show ?thesis
  proof (cases "el_threadId lp \<noteq> io_tid w \<or> el_callingPendingFunctors lp")
    case True
    obtain n v where v: "sys_write os (el_wakeupFd lp) one_bytes ?w = (n, v)" by fastforce
    then obtain ev where ev: "io_trace v = io_trace w @ [ev]"
        "(\<exists>bs. ev = Wrote (el_wakeupFd lp) bs) \<or> (\<exists>e. ev = WriteFailed (el_wakeupFd lp) e)"
        "cw_channels v = cw_channels w" "chan_world.more v = chan_world.more ?w" "io_tid v = io_tid w"
      by (cases rule: sys_write_cases [of os "el_wakeupFd lp" one_bytes ?w]) auto
    define w' where "w' = (if n \<noteq> 8
      then note_log ERROR ''EventLoop::wakeup() writes %lu bytes instead of 8'' v else v)"
    have "queueInLLoop os l t w = Inr w'"
      using lp True v by (auto simp: queueInLLoop_def isInLoopThread_def wakeup_def w'_def)
    then show ?thesis
      by (rule that [of w' "[ev]"])
        (use ev True in \<open>simp_all add: w'_def loop_more wakeup_events_def\<close>)
  next
    case False
    then show ?thesis
      using lp by (intro that [of ?w "[]"])
        (auto simp: queueInLLoop_def isInLoopThread_def wakeup_events_def Let_def)
  qed
qed

lemma queueInLLoop_inv:
  assumes inv: "loops_inv w" and lp: "lw_loops w l = Some lp" and q: "queueInLLoop os l t w = Inr w'"
  shows "loops_inv w'"
proof -
  obtain evs where w': "lw_loops w' = (lw_loops w)(l \<mapsto> lp\<lparr>el_pendingFunctors := el_pendingFunctors lp @ [t]\<rparr>)"
      "cw_channels w' = cw_channels w" "io_trace w' = io_trace w @ evs" "wakeup_events (el_wakeupFd lp) evs"
    by (rule queueInLLoop_result [OF lp, of os t]) (use q in auto)
  have "same_pollers w w'" using lp by (simp add: same_pollers_def w')
  then show ?thesis
    using wakeup_events_streams(3) [OF w'(4)] by (intro loops_inv_frame [OF inv _ _ w'(3)]) (simp_all add: w')
qed

section \<open>A connection in good order\<close>

text \<open>
  \<open>conn_ok\<close>: channel and connection agree, both buffers are well formed, the channel asks for write
  events only while something is pending, and a connected one always does so.
\<close>

definition conn_ok :: "'a conn_world_scheme \<Rightarrow> conn_ptr \<Rightarrow> connection \<Rightarrow> channel \<Rightarrow> bool" where
  "conn_ok w c conn ch \<longleftrightarrow>
     loops_inv w \<and> tw_conns w c = Some conn \<and> cw_channels w (tc_channel conn) = Some ch \<and>
     ch_loop ch = tc_loop conn \<and> ch_fd ch = tc_socket conn \<and>
     buf_inv (tc_inputBuffer conn) \<and> buf_inv (tc_outputBuffer conn) \<and>
     (isWriting ch \<longrightarrow> contents (tc_outputBuffer conn) \<noteq> []) \<and>
     (tc_state conn = kConnected \<and> contents (tc_outputBuffer conn) \<noteq> [] \<longrightarrow> isWriting ch) \<and>
     (\<forall>lp. lw_loops w (tc_loop conn) = Some lp \<longrightarrow> el_wakeupFd lp \<noteq> tc_socket conn)"

lemma conn_okD:
  assumes "conn_ok w c conn ch"
  shows "loops_inv w" "tw_conns w c = Some conn" "cw_channels w (tc_channel conn) = Some ch"
    "ch_loop ch = tc_loop conn" "ch_fd ch = tc_socket conn"
    "buf_inv (tc_inputBuffer conn)" "buf_inv (tc_outputBuffer conn)"
    "isWriting ch \<Longrightarrow> contents (tc_outputBuffer conn) \<noteq> []"
    "tc_state conn = kConnected \<Longrightarrow> contents (tc_outputBuffer conn) \<noteq> [] \<Longrightarrow> isWriting ch"
    "lw_loops w (tc_loop conn) = Some lp \<Longrightarrow> el_wakeupFd lp \<noteq> tc_socket conn"
  using assms by (simp_all add: conn_ok_def)

lemma conn_ok_loop:
  assumes "conn_ok w c conn ch"
  obtains lp where "lw_loops w (tc_loop conn) = Some lp"
  using loops_invD(3) [OF conn_okD(1,3) [OF assms]] conn_okD(4) [OF assms] by auto

text \<open>The abstract view.\<close>

definition out_stream :: "'a conn_world_scheme \<Rightarrow> connection \<Rightarrow> char list" where
  "out_stream w conn = sent_bytes (tc_socket conn) (io_trace w) @ contents (tc_outputBuffer conn)"

definition in_stream :: "'a conn_world_scheme \<Rightarrow> connection \<Rightarrow> char list" where
  "in_stream w conn = received_bytes (tc_socket conn) (io_trace w)"

lemma no_pending:
  "buf_inv b \<Longrightarrow> readableBytes b = 0 \<longleftrightarrow> contents b = []"
  using length_contents [of b] by (simp add: unat_eq_zero flip: length_0_conv)

section \<open>Sending\<close>

lemma loops_inv_io:
  fixes w w' :: "'a loop_world_scheme"
  assumes "loops_inv w" and "io_trace w' = io_trace w @ evs"
    and "\<forall>ev \<in> set evs. \<forall>e. neutral_event e ev"
    and "cw_channels w' = cw_channels w" and "lw_loops w' = lw_loops w"
  shows "loops_inv w'"
  using assms by (intro loops_inv_frame [OF assms(1) _ _ assms(2,3)]) (simp_all add: same_pollers_def)

text \<open>The second half of \<open>sendInLoop\<close>, when \<open>k\<close> of the bytes are gone and some are left.\<close>

lemma send_later_result:
  assumes inv: "loops_inv w" and conn: "tw_conns w c = Some conn"
    and ch: "cw_channels w (tc_channel conn) = Some ch" and loop: "ch_loop ch = tc_loop conn"
    and str: "tw_strs w data = Some str" and k: "k < length str" and idle: "\<not> isWriting ch"
    and out: "buf_inv (tc_outputBuffer conn)"
    and room: "unat (buf_writerIndex (tc_outputBuffer conn)) + length str \<le> vec_max"
  obtains w' outb ch' evs q lp where
    "send_later os c data (Some (int k)) (of_nat (length str - k)) w = Inr w'" and "loops_inv w'"
    and "tw_conns w' = (tw_conns w)(c \<mapsto> conn\<lparr>tc_outputBuffer := outb\<rparr>)"
    and "buf_inv outb" and "contents outb = contents (tc_outputBuffer conn) @ drop k str"
    and "cw_channels w' = (cw_channels w)(tc_channel conn \<mapsto> ch')" and "isWriting ch'"
    and "ch_loop ch' = ch_loop ch" and "ch_fd ch' = ch_fd ch"
    and "lw_loops w (tc_loop conn) = Some lp"
    and "\<exists>ts. lw_loops w' = (lw_loops w)(tc_loop conn \<mapsto>
           lp\<lparr>el_pendingFunctors := el_pendingFunctors lp @ ts, el_poller := q\<rparr>)"
    and "tw_strs w' = tw_strs w" and "io_tid w' = io_tid w"
    and "io_trace w' = io_trace w @ evs"
    and "\<forall>g. g \<noteq> el_wakeupFd lp \<longrightarrow> sent_bytes g evs = []" and "\<forall>g. received_bytes g evs = []"
proof -
  let ?out = "tc_outputBuffer conn" and ?l = "tc_loop conn"
  define left where "left = (of_nat (length str - k) :: size_t)"
  obtain lp where lp: "lw_loops w ?l = Some lp" using loops_invD(3) [OF inv ch] loop by auto
  have rem: "unat left = length str - k"
    unfolding left_def using room by (intro unat_of_nat_small) (simp add: vec_max_def)
  have room': "room_for ?out (unat left)" using room k unfolding room_for_def rem by linarith
  have bound: "unat (buf_writerIndex ?out) + unat left < 18446744073709551616"
    using room k by (simp add: rem vec_max_def)
  have len: "unat left \<le> length (drop k (c_array str))" by (simp add: rem c_array_def)
  from append_bytes_correct [OF out len bound] room' obtain outb where
      outb: "append_bytes (drop k (c_array str)) left ?out = Inr outb" "buf_inv outb"
      "contents outb = contents ?out @ take (unat left) (drop k (c_array str))"
    by auto
  have take: "take (unat left) (drop k (c_array str)) = drop k str"
    using k unfolding rem by (simp add: c_array_def)
  have bytes: "data_from str (Some (int k)) = Inr (drop k (c_array str))"
    using k by (simp add: data_from_def c_array_def)
  define high where "high = (case tc_highWaterMarkCallback conn of
       Some f \<Rightarrow>
         if readableBytes ?out + left \<ge> tc_highWaterMask conn \<and> readableBytes ?out < tc_highWaterMask conn
         then queueInLLoop os ?l (HighWaterMark f c (readableBytes ?out + left)) w else Inr w
     | None \<Rightarrow> Inr w)"
  obtain w1 evs ts where w1: "high = Inr w1" "loops_inv w1" "cw_channels w1 = cw_channels w"
      "loop_world.more w1 = loop_world.more w" "io_tid w1 = io_tid w"
      "lw_loops w1 = (lw_loops w)(?l \<mapsto> lp\<lparr>el_pendingFunctors := el_pendingFunctors lp @ ts\<rparr>)"
      "io_trace w1 = io_trace w @ evs" "wakeup_events (el_wakeupFd lp) evs"
  proof (cases "\<exists>f. tc_highWaterMarkCallback conn = Some f \<and>
      readableBytes ?out + left \<ge> tc_highWaterMask conn \<and> readableBytes ?out < tc_highWaterMask conn")
    case True
    then obtain f where f: "high = queueInLLoop os ?l (HighWaterMark f c (readableBytes ?out + left)) w"
      by (auto simp: high_def)
    show ?thesis
      by (rule queueInLLoop_result [OF lp, of os "HighWaterMark f c (readableBytes ?out + left)"])
        (use f that queueInLLoop_inv [OF inv lp] in force)
  next
    case False
    then have "high = Inr w" by (auto simp: high_def split: option.splits)
    then show ?thesis
      using that [of w "[]" "[]"] inv lp by (simp add: fun_upd_idem wakeup_events_def)
  qed
  let ?conn = "conn\<lparr>tc_outputBuffer := outb\<rparr>"
  let ?w2 = "put_conn c ?conn w1"
  have strs: "tw_conns w1 = tw_conns w" "tw_strs w1 = tw_strs w" using w1(4) by (simp_all add: conn_more)
  have inv2: "loops_inv ?w2" by (rule loops_inv_io [OF w1(2), where evs = "[]"]) simp_all
  have ch2: "cw_channels ?w2 (tc_channel conn) = Some ch" by (simp add: w1 ch)
  obtain w' lp2 q e r where w': "change_events add_write os (tc_channel conn) ?w2 = Inr w'" "loops_inv w'"
      "cw_channels w' = (cw_channels ?w2)(tc_channel conn \<mapsto> set_index (updated_index (add_write ch)) (add_write ch))"
      "lw_loops ?w2 (ch_loop ch) = Some lp2"
      "lw_loops w' = (lw_loops ?w2)(ch_loop ch \<mapsto> lp2\<lparr>el_poller := q\<rparr>)"
      "loop_world.more w' = loop_world.more ?w2" "io_tid w' = io_tid ?w2"
      "io_trace w' = io_trace ?w2 @ [Did (EpollCtl e (update_request (add_write ch)) (ch_fd ch)
         (ch_events ch OR KWriteEvent) (tc_channel conn)) r]"
    by (rule change_events_result [where change = add_write, OF inv2 ch2 add_write_def, of os])
  have run: "send_later os c data (Some (int k)) left w = Inr w'"
    using w1(1) w'(1) conn str bytes outb(1) idle ch strs
    unfolding send_later_def by (simp add: high_def [symmetric] Let_def w1 enableWriting_def)
  have lp2: "lp2 = lp\<lparr>el_pendingFunctors := el_pendingFunctors lp @ ts\<rparr>"
    using w'(4) by (simp add: loop w1)
  have chans: "cw_channels w' = (cw_channels w)(tc_channel conn \<mapsto>
      set_index (updated_index (add_write ch)) (add_write ch))"
    using w'(3) by (simp add: w1)
  show ?thesis
  proof (rule that [OF run [unfolded left_def] w'(2) _ outb(2) _ chans])
    show "io_trace w' = io_trace w @ (evs @ [Did (EpollCtl e (update_request (add_write ch)) (ch_fd ch)
         (ch_events ch OR KWriteEvent) (tc_channel conn)) r])"
      using w'(8) w1(7) by simp
  qed (use w' w1 lp2 lp loop strs outb(3) take wakeup_events_streams [OF w1(8)] in
      \<open>auto simp: conn_more\<close>)
qed

text \<open>The first half, when the kernel takes \<open>k\<close> bytes.\<close>

lemma send_directly_result:
  assumes inv: "loops_inv w" and conn: "tw_conns w c = Some conn"
    and ch: "cw_channels w (tc_channel conn) = Some ch" and lp: "lw_loops w (tc_loop conn) = Some lp"
    and str: "tw_strs w data = Some str" and idle: "\<not> isWriting ch"
    and out: "buf_inv (tc_outputBuffer conn)" "contents (tc_outputBuffer conn) = []"
    and small: "length str \<le> vec_max"
    and took: "os_write os (io_trace w) (ch_fd ch) str = Inr n" and k: "k = min n (length str)" "0 < k"
  obtains w' evs where
    "send_directly os c data (of_nat (length str)) w =
       Inr (Some (int k), of_nat (length str - k), False, w')"
    and "loops_inv w'" and "cw_channels w' = cw_channels w"
    and "loop_world.more w' = loop_world.more w" and "io_tid w' = io_tid w"
    and "lw_loops w' = (lw_loops w)(tc_loop conn \<mapsto> lp\<lparr>el_pendingFunctors := el_pendingFunctors lp @
           (if k = length str then map (\<lambda>f. WriteComplete f c) (option_list (tc_writeCompleteCallback conn))
            else [])\<rparr>)"
    and "io_trace w' = io_trace w @ Wrote (ch_fd ch) (take k str) # evs"
    and "wakeup_events (el_wakeupFd lp) evs"
proof -
  let ?len = "of_nat (length str) :: size_t" and ?l = "tc_loop conn"
  have len: "unat ?len = length str" using small by (intro unat_of_nat_small) (simp add: vec_max_def)
  have le: "k \<le> length str" using k by simp
  have left: "?len - of_int (int k) = of_nat (length str - k)" using le by (simp add: of_nat_diff)
  have left0: "(of_nat (length str - k) :: size_t) = 0 \<longleftrightarrow> k = length str"
  proof -
    have "unat (of_nat (length str - k) :: size_t) = length str - k"
      using small by (intro unat_of_nat_small) (simp add: vec_max_def)
    then show ?thesis using le by (auto simp: unat_eq_zero [symmetric])
  qed
  have data: "take (length str) (c_array str) = str" by (simp add: c_array_def)
  define w1 where "w1 = note_event (Wrote (ch_fd ch) (take k str)) w"
  have wr: "sys_write os (ch_fd ch) str w = (int k, w1)"
    using took k by (simp add: sys_write_def w1_def) (simp add: min_def)
  have empty: "readableBytes (tc_outputBuffer conn) = 0" using no_pending [OF out(1)] out(2) by simp
  have inv1: "loops_inv w1"
    by (rule loops_inv_io [OF inv, where evs = "[Wrote (ch_fd ch) (take k str)]"]) (simp_all add: w1_def)
  have w1: "cw_channels w1 = cw_channels w" "lw_loops w1 = lw_loops w" "loop_world.more w1 = loop_world.more w"
      "io_tid w1 = io_tid w" "io_trace w1 = io_trace w @ [Wrote (ch_fd ch) (take k str)]"
    by (simp_all add: w1_def)
  have step: "send_directly os c data ?len w =
      bindE (if k = length str then
               (case tc_writeCompleteCallback conn of
                  Some f \<Rightarrow> queueInLLoop os ?l (WriteComplete f c) w1 | None \<Rightarrow> Inr w1)
             else Inr w1) (\<lambda>v. Inr (Some (int k), of_nat (length str - k), False, v))"
    using conn ch idle empty str len data wr k(2) left left0
    by (simp add: send_directly_def c_array_def del: of_int_of_nat_eq)
  show ?thesis
  proof (cases "k = length str \<and> tc_writeCompleteCallback conn \<noteq> None")
    case True
    then obtain f where f: "tc_writeCompleteCallback conn = Some f" by auto
    have lp1: "lw_loops w1 ?l = Some lp" using lp w1 by simp
    show ?thesis
      by (rule queueInLLoop_result [OF lp1, of os "WriteComplete f c"])
        (use that queueInLLoop_inv [OF inv1 lp1] True f w1 step in force)
  next
    case False
    then have "send_directly os c data ?len w = Inr (Some (int k), of_nat (length str - k), False, w1)"
      using step by (auto simp: option_list_def)
    then show ?thesis
      by (rule that [where evs = "[]"])
        (use inv1 w1 lp False in \<open>auto simp: wakeup_events_def fun_upd_idem\<close>)
  qed
qed

section \<open>Sending in the loop\<close>

lemma sendInLoop_result:
  assumes ok: "conn_ok w c conn ch" and idle: "contents (tc_outputBuffer conn) = []"
    and str: "tw_strs w data = Some str" and ne: "str \<noteq> []"
    and room: "unat (buf_writerIndex (tc_outputBuffer conn)) + length str \<le> vec_max"
    and took: "os_write os (io_trace w) (tc_socket conn) str = Inr n" and n: "0 < n"
  obtains w' outb ch' where "sendInLoop os c data (of_nat (length str)) w = Inr w'"
    and "tw_conns w' = (tw_conns w)(c \<mapsto> conn\<lparr>tc_outputBuffer := outb\<rparr>)"
    and "conn_ok w' c (conn\<lparr>tc_outputBuffer := outb\<rparr>) ch'"
    and "contents outb = drop n str" and "isWriting ch' \<longleftrightarrow> n < length str"
    and "sent_bytes (tc_socket conn) (io_trace w') = sent_bytes (tc_socket conn) (io_trace w) @ take n str"
    and "in_stream w' conn = in_stream w conn"
    and "cw_channels w' = (cw_channels w)(tc_channel conn \<mapsto> ch')"
    and "tw_strs w' = tw_strs w" and "io_tid w' = io_tid w"
    and "\<forall>l. map_option el_threadId (lw_loops w' l) = map_option el_threadId (lw_loops w l)"
proof -
  note okD = conn_okD [OF ok]
  obtain lp where lp: "lw_loops w (tc_loop conn) = Some lp" by (rule conn_ok_loop [OF ok])
  have idle': "\<not> isWriting ch" using okD(8) idle by blast
  let ?k = "min n (length str)"
  define w0 where "w0 = (if tc_state conn = kDisconnected
    then note_log ERROR ''disconnected, give up writing'' w else w)"
  have w0: "tw_conns w0 = tw_conns w" "cw_channels w0 = cw_channels w" "lw_loops w0 = lw_loops w"
      "tw_strs w0 = tw_strs w" "io_trace w0 = io_trace w" "io_tid w0 = io_tid w"
    by (simp_all add: w0_def)
  have inv0: "loops_inv w0" by (rule loops_inv_io [OF okD(1), where evs = "[]"]) (simp_all add: w0)
  have conn0: "tw_conns w0 c = Some conn" and ch0: "cw_channels w0 (tc_channel conn) = Some ch"
    and lp0: "lw_loops w0 (tc_loop conn) = Some lp" and str0: "tw_strs w0 data = Some str"
    and took0: "os_write os (io_trace w0) (ch_fd ch) str = Inr n"
    using okD lp str took by (simp_all add: w0)
  have small: "length str \<le> vec_max" using room by simp
  obtain w1 evs where w1: "send_directly os c data (of_nat (length str)) w0 =
       Inr (Some (int ?k), of_nat (length str - ?k), False, w1)" "loops_inv w1"
      "cw_channels w1 = cw_channels w0" "loop_world.more w1 = loop_world.more w0" "io_tid w1 = io_tid w0"
      "lw_loops w1 = (lw_loops w0)(tc_loop conn \<mapsto> lp\<lparr>el_pendingFunctors := el_pendingFunctors lp @
           (if ?k = length str then map (\<lambda>f. WriteComplete f c) (option_list (tc_writeCompleteCallback conn))
            else [])\<rparr>)"
      "io_trace w1 = io_trace w0 @ Wrote (ch_fd ch) (take ?k str) # evs"
      "wakeup_events (el_wakeupFd lp) evs"
    by (rule send_directly_result [OF inv0 conn0 ch0 lp0 str0 idle' okD(7) idle small took0 refl])
      (use n ne in simp_all)
  have wk: "el_wakeupFd lp \<noteq> tc_socket conn" using okD(10) [OF lp] .
  have c1: "tw_conns w1 = tw_conns w" "tw_strs w1 = tw_strs w"
    using w1(4) by (simp_all add: conn_more w0)
  have tr1: "sent_bytes (tc_socket conn) (io_trace w1) = sent_bytes (tc_socket conn) (io_trace w) @ take n str"
      "received_bytes (tc_socket conn) (io_trace w1) = received_bytes (tc_socket conn) (io_trace w)"
    using wakeup_events_streams(1) [OF w1(8) wk [symmetric]] wakeup_events_streams(2) [OF w1(8)] okD(5)
    by (simp_all add: w1(7) w0 min_def)
  have left0: "(0 < (of_nat (length str - ?k) :: size_t)) \<longleftrightarrow> n < length str"
  proof -
    have "unat (of_nat (length str - ?k) :: size_t) = length str - ?k"
      using small by (intro unat_of_nat_small) (simp add: vec_max_def)
    then show ?thesis by (auto simp: word_less_nat_alt min_def)
  qed
  have run: "sendInLoop os c data (of_nat (length str)) w =
      (if n < length str then send_later os c data (Some (int ?k)) (of_nat (length str - ?k)) w1 else Inr w1)"
    using okD(2) w1(1) left0 by (simp add: sendInLoop_def Let_def flip: w0_def)
  show ?thesis
  proof (cases "n < length str")
    case False
    have same: "conn\<lparr>tc_outputBuffer := tc_outputBuffer conn\<rparr> = conn" by simp
    show ?thesis
    proof (rule that [where outb = "tc_outputBuffer conn" and ch' = ch])
      show "sendInLoop os c data (of_nat (length str)) w = Inr w1" using run False by simp
      show "conn_ok w1 c (conn\<lparr>tc_outputBuffer := tc_outputBuffer conn\<rparr>) ch"
        using okD w1 c1 w0 wk lp by (auto simp: conn_ok_def)
      show "\<forall>l. map_option el_threadId (lw_loops w1 l) = map_option el_threadId (lw_loops w l)"
        by (simp add: w1(6) w0 lp)
    qed (use c1 tr1 w1 w0 okD idle idle' False in \<open>auto simp: in_stream_def fun_upd_idem\<close>)
  next
    case True
    then have k: "?k = n" by simp
    have conn1: "tw_conns w1 c = Some conn" and ch1: "cw_channels w1 (tc_channel conn) = Some ch"
      and str1: "tw_strs w1 data = Some str"
      using okD str by (simp_all add: c1 w1 w0)
    obtain w' outb ch' evs' q lp' where w': "send_later os c data (Some (int n)) (of_nat (length str - n)) w1 = Inr w'"
        "loops_inv w'" "tw_conns w' = (tw_conns w1)(c \<mapsto> conn\<lparr>tc_outputBuffer := outb\<rparr>)"
        "buf_inv outb" "contents outb = contents (tc_outputBuffer conn) @ drop n str"
        "cw_channels w' = (cw_channels w1)(tc_channel conn \<mapsto> ch')" "isWriting ch'"
        "ch_loop ch' = ch_loop ch" "ch_fd ch' = ch_fd ch"
        "lw_loops w1 (tc_loop conn) = Some lp'"
        "\<exists>ts. lw_loops w' = (lw_loops w1)(tc_loop conn \<mapsto>
           lp'\<lparr>el_pendingFunctors := el_pendingFunctors lp' @ ts, el_poller := q\<rparr>)"
        "tw_strs w' = tw_strs w1" "io_tid w' = io_tid w1" "io_trace w' = io_trace w1 @ evs'"
        "\<forall>g. g \<noteq> el_wakeupFd lp' \<longrightarrow> sent_bytes g evs' = []" "\<forall>g. received_bytes g evs' = []"
      by (rule send_later_result [where os = os, OF w1(2) conn1 ch1 okD(4) str1 True idle' okD(7) room])
    have lp': "el_wakeupFd lp' = el_wakeupFd lp" using w'(10) by (auto simp: w1(6))
    show ?thesis
    proof (rule that [where outb = outb and ch' = ch'])
      show "sendInLoop os c data (of_nat (length str)) w = Inr w'" using run True w'(1) k by simp
      show "conn_ok w' c (conn\<lparr>tc_outputBuffer := outb\<rparr>) ch'"
        using okD w' wk lp' True idle by (auto simp: conn_ok_def)
      show "sent_bytes (tc_socket conn) (io_trace w') =
          sent_bytes (tc_socket conn) (io_trace w) @ take n str"
        using tr1 w'(14,15) wk lp' by simp
      show "in_stream w' conn = in_stream w conn" using tr1 w'(14,16) by (simp add: in_stream_def)
      show "\<forall>l. map_option el_threadId (lw_loops w' l) = map_option el_threadId (lw_loops w l)"
        using w'(10,11) by (auto simp: w1(6) w0 lp)
    qed (use w' c1 w1 w0 idle True in simp_all)
  qed
qed

section \<open>Shutting down and writing what is pending\<close>

lemma queue_optional_result:
  assumes inv: "loops_inv w" and lp: "lw_loops w l = Some lp"
  obtains w' evs where
    "(case cb of Some f \<Rightarrow> queueInLLoop os l (t f) w | None \<Rightarrow> Inr w) = Inr w'" and "loops_inv w'"
    and "lw_loops w' = (lw_loops w)(l \<mapsto>
           lp\<lparr>el_pendingFunctors := el_pendingFunctors lp @ map t (option_list cb)\<rparr>)"
    and "cw_channels w' = cw_channels w" and "loop_world.more w' = loop_world.more w"
    and "lw_next w' = lw_next w" and "io_tid w' = io_tid w"
    and "io_trace w' = io_trace w @ evs" and "wakeup_events (el_wakeupFd lp) evs"
proof (cases cb)
  case None
  then show ?thesis
    using that [of w "[]"] inv lp by (simp add: option_list_def fun_upd_idem wakeup_events_def)
next
  case (Some f)
  show ?thesis
    by (rule queueInLLoop_result [OF lp, of os "t f"])
      (use that Some queueInLLoop_inv [OF inv lp] in \<open>force simp: option_list_def\<close>)
qed

lemma shutdownInLoop_result:
  assumes conn: "tw_conns w c = Some conn" and ch: "cw_channels w (tc_channel conn) = Some ch"
  obtains w' evs where "shutdownInLoop os c w = Inr w'"
    and "cw_channels w' = cw_channels w" and "chan_world.more w' = chan_world.more w"
    and "io_tid w' = io_tid w" and "io_trace w' = io_trace w @ evs"
    and "if isWriting ch then evs = [] else \<exists>r. evs = [Did (ShutdownWr (tc_socket conn)) r]"
proof (cases "isWriting ch")
  case True
  then show ?thesis using that [of w "[]"] conn ch by (simp add: shutdownInLoop_def)
next
  case False
  obtain n v where v: "sys_call os (ShutdownWr (tc_socket conn)) w = (n, v)" by fastforce
  have run: "shutdownInLoop os c w = Inr (shutdownWrite os (tc_socket conn) w)"
    using conn ch False by (simp add: shutdownInLoop_def)
  show ?thesis
    by (cases rule: sys_call_cases [of os "ShutdownWr (tc_socket conn)" w])
      (use that [OF run] False in \<open>auto simp: shutdownWrite_def\<close>)
qed

text \<open>What follows the last byte: no more write events, the callback is queued, the FIN if it was asked for.\<close>

definition after_last_byte :: "os \<Rightarrow> conn_ptr \<Rightarrow> connection \<Rightarrow> 'a conn_world_scheme \<Rightarrow>
     cpp_error + 'a conn_world_scheme" where
  "after_last_byte os c conn w =
     bindE (disableWriting os (tc_channel conn) w) (\<lambda>w.
     bindE (case tc_writeCompleteCallback conn of
              Some f \<Rightarrow> queueInLLoop os (tc_loop conn) (WriteComplete f c) w | None \<Rightarrow> Inr w) (\<lambda>w.
       if tc_state conn = kDisconnected then shutdownInLoop os c w else Inr w))"

lemma after_last_byte_result:
  assumes inv: "loops_inv w" and conn: "tw_conns w c = Some conn"
    and ch: "cw_channels w (tc_channel conn) = Some ch" "ch_loop ch = tc_loop conn"
    and lp: "lw_loops w (tc_loop conn) = Some lp" and wk: "el_wakeupFd lp \<noteq> tc_socket conn"
  obtains w' ch' lp' evs where "after_last_byte os c conn w = Inr w'" and "loops_inv w'"
    and "cw_channels w' = (cw_channels w)(tc_channel conn \<mapsto> ch')"
    and "ch_loop ch' = ch_loop ch" and "ch_fd ch' = ch_fd ch" and "\<not> isWriting ch'"
    and "lw_loops w' = (lw_loops w)(tc_loop conn \<mapsto> lp')" and "el_wakeupFd lp' = el_wakeupFd lp"
    and "tw_conns w' = tw_conns w" and "tw_strs w' = tw_strs w" and "io_tid w' = io_tid w"
    and "io_trace w' = io_trace w @ evs" and "sent_bytes (tc_socket conn) evs = []"
    and "received_bytes (tc_socket conn) evs = []"
    and "if tc_state conn = kDisconnected then \<exists>es r. evs = es @ [Did (ShutdownWr (tc_socket conn)) r]
      else \<forall>r. Did (ShutdownWr (tc_socket conn)) r \<notin> set evs"
proof -
  let ?l = "tc_loop conn" and ?f = "tc_socket conn"
  obtain w3 lp3 q e r where w3: "change_events del_write os (tc_channel conn) w = Inr w3" "loops_inv w3"
      "cw_channels w3 = (cw_channels w)(tc_channel conn \<mapsto> set_index (updated_index (del_write ch)) (del_write ch))"
      "lw_loops w (ch_loop ch) = Some lp3"
      "lw_loops w3 = (lw_loops w)(ch_loop ch \<mapsto> lp3\<lparr>el_poller := q\<rparr>)"
      "loop_world.more w3 = loop_world.more w" "io_tid w3 = io_tid w"
      "io_trace w3 = io_trace w @ [Did (EpollCtl e (update_request (del_write ch)) (ch_fd ch)
         (ch_events ch AND NOT KWriteEvent) (tc_channel conn)) r]"
    by (rule change_events_result [where change = del_write, OF inv ch(1) del_write_def, of os])
  define ch' where "ch' = set_index (updated_index (del_write ch)) (del_write ch)"
  have ch': "ch_loop ch' = ch_loop ch" "ch_fd ch' = ch_fd ch" "\<not> isWriting ch'" by (simp_all add: ch'_def)
  have lpw3: "lw_loops w3 ?l = Some (lp\<lparr>el_poller := q\<rparr>)" using w3(4,5) ch(2) lp by simp
  obtain w4 evs where w4: "(case tc_writeCompleteCallback conn of
        Some f \<Rightarrow> queueInLLoop os ?l (WriteComplete f c) w3 | None \<Rightarrow> Inr w3) = Inr w4" "loops_inv w4"
      "lw_loops w4 = (lw_loops w3)(?l \<mapsto> lp\<lparr>el_poller := q, el_pendingFunctors := el_pendingFunctors lp @
         map (\<lambda>f. WriteComplete f c) (option_list (tc_writeCompleteCallback conn))\<rparr>)"
      "cw_channels w4 = cw_channels w3" "loop_world.more w4 = loop_world.more w3"
      "io_tid w4 = io_tid w3" "io_trace w4 = io_trace w3 @ evs" "wakeup_events (el_wakeupFd lp) evs"
    by (rule queue_optional_result [OF w3(2) lpw3, where cb = "tc_writeCompleteCallback conn" and os = os
          and t = "\<lambda>f. WriteComplete f c"])
      auto
  have at: "tw_conns w4 c = Some conn" "cw_channels w4 (tc_channel conn) = Some ch'"
    using conn w4(4,5) w3(3,6) by (simp_all add: conn_more ch'_def)
  obtain w5 evs5 where w5: "(if tc_state conn = kDisconnected then shutdownInLoop os c w4 else Inr w4) = Inr w5"
      "cw_channels w5 = cw_channels w4" "chan_world.more w5 = chan_world.more w4"
      "io_tid w5 = io_tid w4" "io_trace w5 = io_trace w4 @ evs5"
      "if tc_state conn = kDisconnected then \<exists>r. evs5 = [Did (ShutdownWr ?f) r] else evs5 = []"
  proof (cases "tc_state conn = kDisconnected")
    case True
    from shutdownInLoop_result [OF at, of os] show ?thesis using that True ch'(3) by simp metis
  next
    case False
    then show ?thesis using that [of w4 "[]"] by simp
  qed
  have n5: "sent_bytes g evs5 = []" "received_bytes g evs5 = []" "\<forall>ev \<in> set evs5. \<forall>e. neutral_event e ev" for g
    using w5(6) by (auto split: if_splits)
  have more5: "lw_loops w5 = lw_loops w4" using w5(3) by (simp add: loop_more)
  have notin: "Did (ShutdownWr ?f) r' \<notin> set evs" for r'
    using w4(8) by (auto simp: wakeup_events_def)
  let ?evs = "Did (EpollCtl e (update_request (del_write ch)) (ch_fd ch) (ch_events ch AND NOT KWriteEvent)
      (tc_channel conn)) r # evs @ evs5"
  show ?thesis
  proof (rule that [where ch' = ch' and w' = w5 and evs = ?evs])
    show "after_last_byte os c conn w = Inr w5"
      using w3(1) w4(1) w5(1) by (simp add: after_last_byte_def disableWriting_def)
    show "loops_inv w5" by (rule loops_inv_io [OF w4(2) w5(5) n5(3) w5(2) more5])
    show "lw_loops w5 = (lw_loops w)(?l \<mapsto> lp\<lparr>el_poller := q, el_pendingFunctors := el_pendingFunctors lp @
         map (\<lambda>f. WriteComplete f c) (option_list (tc_writeCompleteCallback conn))\<rparr>)"
      using more5 w4(3) w3(5) ch(2) by simp
    show "if tc_state conn = kDisconnected then \<exists>es r. ?evs = es @ [Did (ShutdownWr ?f) r]
        else \<forall>r. Did (ShutdownWr ?f) r \<notin> set ?evs"
      using w5(6) notin by (auto split: if_splits intro: append_eq_Cons_conv [THEN iffD2])
    show "sent_bytes ?f ?evs = []" "received_bytes ?f ?evs = []"
      using wakeup_events_streams(1) [OF w4(8) wk [symmetric]] wakeup_events_streams(2) [OF w4(8)] n5(1,2) by simp_all
  qed (use w3 w4 w5 ch' more5 in \<open>simp_all add: conn_more loop_more ch'_def\<close>)
qed

lemma handleWrite_result:
  assumes ok: "conn_ok w c conn ch" and writing: "isWriting ch"
    and took: "os_write os (io_trace w) (tc_socket conn) (contents (tc_outputBuffer conn)) = Inr n"
    and n: "0 < n"
  obtains w' outb ch' evs where "handleWrite os c w = Inr w'"
    and "tw_conns w' = (tw_conns w)(c \<mapsto> conn\<lparr>tc_outputBuffer := outb\<rparr>)"
    and "conn_ok w' c (conn\<lparr>tc_outputBuffer := outb\<rparr>) ch'"
    and "contents outb = drop n (contents (tc_outputBuffer conn))"
    and "isWriting ch' \<longleftrightarrow> n < length (contents (tc_outputBuffer conn))"
    and "sent_bytes (tc_socket conn) (io_trace w') =
      sent_bytes (tc_socket conn) (io_trace w) @ take n (contents (tc_outputBuffer conn))"
    and "in_stream w' conn = in_stream w conn"
    and "cw_channels w' = (cw_channels w)(tc_channel conn \<mapsto> ch')"
    and "tw_strs w' = tw_strs w" and "io_tid w' = io_tid w"
    and "io_trace w' = io_trace w @ evs"
    and "if length (contents (tc_outputBuffer conn)) \<le> n \<and> tc_state conn = kDisconnected
      then \<exists>es r. evs = es @ [Did (ShutdownWr (tc_socket conn)) r]
      else \<forall>r. Did (ShutdownWr (tc_socket conn)) r \<notin> set evs"
proof -
  note okD = conn_okD [OF ok]
  obtain lp where lp: "lw_loops w (tc_loop conn) = Some lp" by (rule conn_ok_loop [OF ok])
  let ?out = "tc_outputBuffer conn" and ?f = "tc_socket conn" and ?l = "tc_loop conn"
  let ?k = "min n (length (contents ?out))"
  have ne: "contents ?out \<noteq> []" using okD(8) writing by blast
  have k: "0 < ?k" using ne n by simp
  define w1 where "w1 = note_event (Wrote ?f (take ?k (contents ?out))) w"
  have fd: "writeFd os (ch_fd ch) ?out w = Inr (int ?k, None, w1)"
    using took okD(5) by (simp add: writeFd_def read_all_contents okD(7) sys_write_def w1_def)
      (simp add: min_def)
  define outb where "outb = retrieve (of_int (int ?k)) ?out"
  have small: "length (contents ?out) < 18446744073709551616"
    using length_contents [OF okD(7)] unat_readable [OF okD(7)] buf_invD [OF okD(7)] by linarith
  have un: "unat (of_nat ?k :: size_t) = ?k" using small by (intro unat_of_nat_small) simp
  have outb: "buf_inv outb" "contents outb = drop n (contents ?out)"
    using retrieve_correct [OF okD(7), of "of_nat ?k"] un by (auto simp: outb_def min_def)
  let ?conn = "conn\<lparr>tc_outputBuffer := outb\<rparr>"
  define w2 where "w2 = put_conn c ?conn w1"
  have w2: "tw_conns w2 = (tw_conns w)(c \<mapsto> ?conn)" "cw_channels w2 = cw_channels w"
      "lw_loops w2 = lw_loops w" "tw_strs w2 = tw_strs w" "io_tid w2 = io_tid w"
      "io_trace w2 = io_trace w @ [Wrote ?f (take ?k (contents ?out))]"
    by (simp_all add: w2_def w1_def)
  have inv2: "loops_inv w2"
    by (rule loops_inv_io [OF okD(1) w2(6)]) (simp_all add: w2)
  have ch2: "cw_channels w2 (tc_channel conn) = Some ch" using okD(3) by (simp add: w2)
  have empty: "readableBytes outb = 0 \<longleftrightarrow> length (contents ?out) \<le> n"
    using no_pending [OF outb(1)] by (simp add: outb(2))
  define tail where "tail = (if readableBytes outb = 0 then after_last_byte os c ?conn w2 else Inr w2)"
  have run: "handleWrite os c w = tail"
    using okD(2,3) writing fd k
    by (simp add: handleWrite_def tail_def after_last_byte_def Let_def outb_def w2_def cong: option.case_cong)
  show ?thesis
  proof (cases "length (contents ?out) \<le> n")
    case False
    show ?thesis
    proof (rule that [where outb = outb and ch' = ch and evs = "[Wrote ?f (take ?k (contents ?out))]", OF _ w2(1)])
      show "conn_ok w2 c ?conn ch"
        using okD inv2 w2 outb False lp writing by (auto simp: conn_ok_def)
      show "handleWrite os c w = Inr w2" using run False empty by (simp add: tail_def)
      show "cw_channels w2 = (cw_channels w)(tc_channel conn \<mapsto> ch)"
        using okD(3) by (simp add: w2 fun_upd_idem)
    qed (use False w2 outb(2) writing in \<open>simp_all add: in_stream_def min_def\<close>)
  next
    case True
    obtain w5 ch' lp' evs where w5: "after_last_byte os c ?conn w2 = Inr w5" "loops_inv w5"
        "cw_channels w5 = (cw_channels w2)(tc_channel ?conn \<mapsto> ch')" "ch_loop ch' = ch_loop ch" "ch_fd ch' = ch_fd ch"
        "\<not> isWriting ch'" "lw_loops w5 = (lw_loops w2)(tc_loop ?conn \<mapsto> lp')" "el_wakeupFd lp' = el_wakeupFd lp"
        "tw_conns w5 = tw_conns w2" "tw_strs w5 = tw_strs w2" "io_tid w5 = io_tid w2" "io_trace w5 = io_trace w2 @ evs"
        "sent_bytes (tc_socket ?conn) evs = []" "received_bytes (tc_socket ?conn) evs = []"
        "if tc_state ?conn = kDisconnected then \<exists>es r. evs = es @ [Did (ShutdownWr (tc_socket ?conn)) r]
         else \<forall>r. Did (ShutdownWr (tc_socket ?conn)) r \<notin> set evs"
      by (rule after_last_byte_result [OF inv2, of c ?conn ch lp os]) (use ch2 okD(4) okD(10) [OF lp] lp w2(1,3) in auto)
    show ?thesis
    proof (rule that [where outb = outb and ch' = ch' and w' = w5 and evs = "Wrote ?f (take ?k (contents ?out)) # evs"])
      show "handleWrite os c w = Inr w5" using run True empty w5(1) by (simp add: tail_def)
      show "conn_ok w5 c ?conn ch'"
        using okD w5(2-9) w2(1) outb True lp by (auto simp: conn_ok_def)
      show "if length (contents ?out) \<le> n \<and> tc_state conn = kDisconnected
          then \<exists>es r. Wrote ?f (take ?k (contents ?out)) # evs = es @ [Did (ShutdownWr ?f) r]
          else \<forall>r. Did (ShutdownWr ?f) r \<notin> set (Wrote ?f (take ?k (contents ?out)) # evs)"
        using w5(15) True by (auto split: if_splits)
      show "sent_bytes ?f (io_trace w5) = sent_bytes ?f (io_trace w) @ take n (contents ?out)"
        using w5(12,13) w2(6) by (simp add: min_def)
      show "in_stream w5 conn = in_stream w conn" using w5(12,14) w2(6) by (simp add: in_stream_def)
    qed (use True outb(2) w5 w2 in simp_all)
  qed
qed

end
