(* ===== verification/Connection_Safety.thy ===== *)
theory Connection_Safety
  imports Connection_Behaviour
begin

text \<open>
  The invariant of a world with connections: the loops agree with epoll (\<open>loops_inv\<close>), addresses
  at and above \<open>lw_next\<close> are free, every connection has a live channel of its own loop and socket and
  well-formed buffers, and every channel watches a descriptor that is open. \<open>safe w w'\<close> says that a
  step keeps it and destroys nothing; it is an instance of \<open>connection_contract\<close>, so every
  operation of a connection is such a step.
\<close>

section \<open>Open descriptors\<close>

fun fd_step :: "io_event \<Rightarrow> int set \<Rightarrow> int set" where
  "fd_step (Opened k f) S = insert f S"
| "fd_step (Did (CloseFd f) r) S = S - {f}"
| "fd_step _ S = S"

definition open_fds :: "io_event list \<Rightarrow> int set" where
  "open_fds tr = fold fd_step tr {}"

lemma open_fds_snoc [simp]: "open_fds (tr @ [ev]) = fd_step ev (open_fds tr)"
  by (simp add: open_fds_def)

lemma open_fds_append: "open_fds (tr @ evs) = fold fd_step evs (open_fds tr)"
  by (simp add: open_fds_def)

definition closes :: "io_event \<Rightarrow> bool" where
  "closes ev \<longleftrightarrow> (\<exists>f r. ev = Did (CloseFd f) r)"

lemma fd_step_grows: "\<not> closes ev \<Longrightarrow> S \<subseteq> fd_step ev S"
  by (cases "(ev, S)" rule: fd_step.cases) (auto simp: closes_def)

lemma open_fds_grow:
  assumes "\<forall>ev \<in> set evs. \<not> closes ev"
  shows "open_fds tr \<subseteq> open_fds (tr @ evs)"
  using assms
proof (induction evs arbitrary: tr)
  case Nil
  then show ?case by simp
next
  case (Cons ev evs)
  have "open_fds tr \<subseteq> open_fds (tr @ [ev])" using fd_step_grows Cons.prems by simp
  also have "\<dots> \<subseteq> open_fds ((tr @ [ev]) @ evs)"
    using Cons.IH [of "tr @ [ev]"] Cons.prems by (simp del: open_fds_snoc)
  finally show ?case by simp
qed

lemma harmless_closes: "harmless ev \<Longrightarrow> \<not> closes ev" and harmless_neutral: "harmless ev \<Longrightarrow> neutral_event e ev"
  by (cases ev rule: harmless.cases; simp add: closes_def)+

section \<open>The invariant\<close>

definition channel_home :: "channel \<Rightarrow> loop_ptr \<times> int" where
  "channel_home ch = (ch_loop ch, ch_fd ch)"

definition conns_inv :: "'a conn_world_scheme \<Rightarrow> bool" where
  "conns_inv w \<longleftrightarrow>
     (\<forall>c conn. tw_conns w c = Some conn \<longrightarrow>
        c < lw_next w \<and>
        map_option channel_home (cw_channels w (tc_channel conn)) = Some (tc_loop conn, tc_socket conn) \<and>
        buf_inv (tc_inputBuffer conn) \<and> buf_inv (tc_outputBuffer conn)) \<and>
     (\<forall>c d conn dconn. tw_conns w c = Some conn \<and> tw_conns w d = Some dconn \<and>
        tc_channel conn = tc_channel dconn \<longrightarrow> c = d)"

definition fds_inv :: "'a chan_world_scheme \<Rightarrow> bool" where
  "fds_inv w \<longleftrightarrow> (\<forall>p ch. cw_channels w p = Some ch \<longrightarrow> ch_fd ch \<in> open_fds (io_trace w))"

text \<open>No channel watches the descriptor of an epoll instance.\<close>

definition epolls_inv :: "'a loop_world_scheme \<Rightarrow> bool" where
  "epolls_inv w \<longleftrightarrow> (\<forall>l p. poller_at l w = Some p \<longrightarrow> ep_epollfd p \<in> open_fds (io_trace w) \<and>
     (\<forall>c ch. cw_channels w c = Some ch \<longrightarrow> ch_fd ch \<noteq> ep_epollfd p))"

definition world_inv :: "'a conn_world_scheme \<Rightarrow> bool" where
  "world_inv w \<longleftrightarrow> addr_ok w \<and> loops_inv w \<and> conns_inv w \<and> fds_inv w \<and> epolls_inv w"

text \<open>What a step may not do: destroy a loop, a channel or a connection, or move one.\<close>

definition conn_home :: "connection \<Rightarrow> loop_ptr \<times> string \<times> int \<times> chan_ptr" where
  "conn_home conn = (tc_loop conn, tc_name conn, tc_socket conn, tc_channel conn)"

definition stays :: "'a conn_world_scheme \<Rightarrow> 'a conn_world_scheme \<Rightarrow> bool" where
  "stays w w' \<longleftrightarrow>
     dom (lw_loops w) \<subseteq> dom (lw_loops w') \<and>
     (\<forall>p ch. cw_channels w p = Some ch \<longrightarrow>
        map_option channel_home (cw_channels w' p) = Some (channel_home ch)) \<and>
     (\<forall>c conn. tw_conns w c = Some conn \<longrightarrow>
        map_option conn_home (tw_conns w' c) = Some (conn_home conn)) \<and>
     lw_next w \<le> lw_next w'"

definition safe :: "'a conn_world_scheme \<Rightarrow> 'a conn_world_scheme \<Rightarrow> bool" where
  "safe w w' \<longleftrightarrow> (world_inv w \<longrightarrow> world_inv w' \<and> stays w w')"

lemma stays_refl [simp]: "stays w w"
  by (simp add: stays_def)

lemma stays_trans:
  assumes "stays u v" and "stays v w"
  shows "stays u w"
  unfolding stays_def
proof (intro conjI allI impI)
  show "dom (lw_loops u) \<subseteq> dom (lw_loops w)" using assms by (auto simp: stays_def)
  show "lw_next u \<le> lw_next w" using assms by (auto simp: stays_def)
  show "map_option channel_home (cw_channels w p) = Some (channel_home ch)"
    if ch: "cw_channels u p = Some ch" for p ch
  proof -
    from assms(1) ch obtain ch' where "cw_channels v p = Some ch'" "channel_home ch' = channel_home ch"
      unfolding stays_def map_option_eq_Some by metis
    with assms(2) show ?thesis by (metis stays_def)
  qed
  show "map_option conn_home (tw_conns w c) = Some (conn_home conn)"
    if conn: "tw_conns u c = Some conn" for c conn
  proof -
    from assms(1) conn obtain conn' where "tw_conns v c = Some conn'" "conn_home conn' = conn_home conn"
      unfolding stays_def map_option_eq_Some by metis
    with assms(2) show ?thesis by (metis stays_def)
  qed
qed

lemma safe_refl [simp]: "safe w w"
  by (simp add: safe_def)

lemma safe_trans: "safe u v \<Longrightarrow> safe v w \<Longrightarrow> safe u w"
  unfolding safe_def using stays_trans by metis

text \<open>The common shape: channels and connections stay where they are, one by one.\<close>

lemma safe_frame:
  assumes loops: "world_inv w \<Longrightarrow> loops_inv w'" and addr: "addr_ok w \<Longrightarrow> addr_ok w'"
    and chans: "\<And>p. map_option channel_home (cw_channels w' p) = map_option channel_home (cw_channels w p)"
    and conns: "\<And>c conn'. tw_conns w' c = Some conn' \<Longrightarrow> \<exists>conn. tw_conns w c = Some conn \<and> same_home conn conn'"
      "dom (tw_conns w) \<subseteq> dom (tw_conns w')"
    and nxt: "lw_next w \<le> lw_next w'" and dom: "dom (lw_loops w) \<subseteq> dom (lw_loops w')"
    and tr: "io_trace w' = io_trace w @ evs" and evs: "\<forall>ev \<in> set evs. \<not> closes ev"
    and epolls: "world_inv w \<Longrightarrow> same_epolls w w'"
  shows "safe w w'"
  unfolding safe_def
proof (intro impI conjI)
  assume inv: "world_inv w"
  have ci: "conns_inv w" and fi: "fds_inv w" and ad: "addr_ok w" using inv by (simp_all add: world_inv_def)
  have home: "conn_home conn' = conn_home conn" if "same_home conn conn'" for conn conn'
    using that by (simp add: same_home_def conn_home_def)
  have "conns_inv w'"
    unfolding conns_inv_def chans
  proof (rule conjI)
    show "\<forall>c conn'. tw_conns w' c = Some conn' \<longrightarrow> c < lw_next w' \<and>
        map_option channel_home (cw_channels w (tc_channel conn')) = Some (tc_loop conn', tc_socket conn') \<and>
        buf_inv (tc_inputBuffer conn') \<and> buf_inv (tc_outputBuffer conn')"
    proof (intro allI impI)
      fix c conn' assume "tw_conns w' c = Some conn'"
      with conns(1) obtain conn where "tw_conns w c = Some conn" "same_home conn conn'" by blast
      with ci have "c < lw_next w \<and>
        map_option channel_home (cw_channels w (tc_channel conn')) = Some (tc_loop conn', tc_socket conn') \<and>
        buf_inv (tc_inputBuffer conn') \<and> buf_inv (tc_outputBuffer conn')"
        unfolding conns_inv_def same_home_def by metis
      with nxt show "c < lw_next w' \<and>
        map_option channel_home (cw_channels w (tc_channel conn')) = Some (tc_loop conn', tc_socket conn') \<and>
        buf_inv (tc_inputBuffer conn') \<and> buf_inv (tc_outputBuffer conn')"
        by linarith
    qed
    show "\<forall>c d conn dconn. tw_conns w' c = Some conn \<and> tw_conns w' d = Some dconn \<and>
        tc_channel conn = tc_channel dconn \<longrightarrow> c = d"
    proof (intro allI impI)
      fix c d conn' dconn'
      assume a: "tw_conns w' c = Some conn' \<and> tw_conns w' d = Some dconn' \<and>
        tc_channel conn' = tc_channel dconn'"
      obtain conn where "tw_conns w c = Some conn" "tc_channel conn' = tc_channel conn"
        using a conns(1) by (metis same_home_def)
      moreover obtain dconn where "tw_conns w d = Some dconn" "tc_channel dconn' = tc_channel dconn"
        using a conns(1) by (metis same_home_def)
      ultimately show "c = d" using ci a unfolding conns_inv_def by metis
    qed
  qed
  moreover have "fds_inv w'"
    unfolding fds_inv_def
  proof (intro allI impI)
    fix p ch' assume "cw_channels w' p = Some ch'"
    with chans [of p] obtain ch where "cw_channels w p = Some ch" "ch_fd ch = ch_fd ch'"
      by (cases "cw_channels w p") (auto simp: channel_home_def)
    with fi have "ch_fd ch' \<in> open_fds (io_trace w)" by (metis fds_inv_def)
    then show "ch_fd ch' \<in> open_fds (io_trace w')"
      unfolding tr using open_fds_grow [OF evs] by (rule rev_subsetD)
  qed
  moreover have "epolls_inv w'"
    unfolding epolls_inv_def
  proof (intro allI impI conjI)
    fix l p' assume "poller_at l w' = Some p'"
    with epolls [OF inv] obtain p where p: "poller_at l w = Some p" "ep_epollfd p' = ep_epollfd p"
      unfolding same_epolls_def by (metis map_option_eq_Some option.inject option.map(2))
    have ei: "epolls_inv w" using inv by (simp add: world_inv_def)
    with p have "ep_epollfd p' \<in> open_fds (io_trace w)" by (auto simp: epolls_inv_def)
    then show "ep_epollfd p' \<in> open_fds (io_trace w')"
      unfolding tr using open_fds_grow [OF evs] by (rule rev_subsetD)
    fix c ch' assume "cw_channels w' c = Some ch'"
    with chans [of c] obtain ch where "cw_channels w c = Some ch" "ch_fd ch = ch_fd ch'"
      by (cases "cw_channels w c") (auto simp: channel_home_def)
    with ei p show "ch_fd ch' \<noteq> ep_epollfd p'" by (metis epolls_inv_def)
  qed
  ultimately show "world_inv w'"
    using loops [OF inv] addr [OF ad] by (simp add: world_inv_def)
  show "stays w w'"
    unfolding stays_def
  proof (intro conjI allI impI)
    show "map_option conn_home (tw_conns w' c) = Some (conn_home conn)" if c: "tw_conns w c = Some conn" for c conn
    proof -
      from c conns(2) obtain conn' where "tw_conns w' c = Some conn'" by blast
      with conns(1) [OF this] home c show ?thesis by auto
    qed
  qed (use dom nxt chans in simp_all)
qed

section \<open>Every operation is safe\<close>

lemma channel_home_simps [simp]:
  "channel_home (set_index i ch) = channel_home ch" "channel_home (tie c ch) = channel_home ch"
  "channel_home (add_read ch) = channel_home ch" "channel_home (del_read ch) = channel_home ch"
  "channel_home (add_write ch) = channel_home ch" "channel_home (del_write ch) = channel_home ch"
  "channel_home (del_all ch) = channel_home ch"
  by (simp_all add: channel_home_def channel_defs)

lemma same_home_refl [simp]: "same_home conn conn"
  by (simp add: same_home_def)

lemma safe_same_conns:
  assumes "world_inv w \<Longrightarrow> loops_inv w'" and "addr_ok w \<Longrightarrow> addr_ok w'"
    and "\<And>p. map_option channel_home (cw_channels w' p) = map_option channel_home (cw_channels w p)"
    and "tw_conns w' = tw_conns w" and "lw_next w \<le> lw_next w'" and "dom (lw_loops w) \<subseteq> dom (lw_loops w')"
    and "io_trace w' = io_trace w @ evs" and "\<forall>ev \<in> set evs. \<not> closes ev"
    and "world_inv w \<Longrightarrow> same_epolls w w'"
  shows "safe w w'"
  by (rule safe_frame [OF assms(1,2,3) _ _ assms(5-9)]) (auto simp: assms(4))

lemma same_epolls_loops [simp]: "lw_loops w' = lw_loops w \<Longrightarrow> same_epolls w w'"
  by (simp add: same_epolls_def poller_at_def)

lemma quiet_safe:
  fixes w w' :: "'a conn_world_scheme"
  assumes q: "quiet_step w w'"
  shows "safe w w'"
proof -
  from q obtain evs where w': "cw_channels w' = cw_channels w" "chan_world.more w' = chan_world.more w"
      "io_trace w' = io_trace w @ evs" "\<forall>ev \<in> set evs. harmless ev"
    by (auto simp: quiet_step_def)
  have more: "lw_loops w' = lw_loops w" "lw_next w' = lw_next w" "tw_conns w' = tw_conns w"
    using w'(2) by (simp_all add: loop_more conn_more)
  have "world_inv w \<Longrightarrow> loops_inv w'"
    by (rule loops_inv_io [OF _ w'(3) _ w'(1) more(1)])
      (use w'(4) harmless_neutral in \<open>auto simp: world_inv_def\<close>)
  then show ?thesis
    by (rule safe_same_conns [OF _ extendsD [OF io_step_extends [OF quiet_io_step [OF q]]] _ more(3) _ _ w'(3)])
      (use w' more harmless_closes in auto)
qed

lemma update_safe:
  assumes "tw_conns w c = Some conn" and "same_home conn conn'"
  shows "safe w (put_conn c conn' w)"
proof (rule safe_frame [where evs = "[]"])
  show "world_inv w \<Longrightarrow> loops_inv (put_conn c conn' w)"
    by (rule loops_inv_io [where evs = "[]"]) (simp_all add: world_inv_def)
  show "\<exists>k. tw_conns w d = Some k \<and> same_home k dconn" if "tw_conns (put_conn c conn' w) d = Some dconn" for d dconn
    using that assms by (cases "d = c") auto
  show "addr_ok w \<Longrightarrow> addr_ok (put_conn c conn' w)"
    by (rule extendsD [OF extends_put_conn [OF extends_refl]])
qed (use assms in auto)

lemma tie_safe:
  assumes "cw_channels w p = Some ch"
  shows "safe w (put_channel p (tie c ch) w)"
proof (rule safe_same_conns [where evs = "[]"])
  show "world_inv w \<Longrightarrow> loops_inv (put_channel p (tie c ch) w)"
    by (rule loops_inv_frame [where evs = "[]"])
      (use assms in \<open>auto simp: world_inv_def same_pollers_def same_registrations_def registration_def tie_def\<close>)
qed (use assms in \<open>auto intro: extendsD [OF extends_basic(4)]\<close>)

lemma change_events_safe:
  fixes w w' :: "'a conn_world_scheme"
  assumes run: "change_events change os p w = Inr w'"
    and change: "\<And>ch. \<exists>ev. change ch = ch\<lparr>ch_events := ev\<rparr>"
  shows "safe w w'"
proof (cases "world_inv w")
  case False
  then show ?thesis by (simp add: safe_def)
next
  case True
  then have inv: "loops_inv w" by (simp add: world_inv_def)
  from run obtain ch where ch: "cw_channels w p = Some ch" by (auto simp: change_events_def bind_simps)
  obtain ev where ev: "change ch = ch\<lparr>ch_events := ev\<rparr>" using change by blast
  obtain v lp q e r where v: "change_events change os p w = Inr v" "loops_inv v"
      "cw_channels v = (cw_channels w)(p \<mapsto> set_index (updated_index (change ch)) (change ch))"
      "lw_loops v = (lw_loops w)(ch_loop ch \<mapsto> lp\<lparr>el_poller := q\<rparr>)"
      "lw_next v = lw_next w" "loop_world.more v = loop_world.more w"
      "io_trace v = io_trace w @ [Did (EpollCtl e (update_request (change ch)) (ch_fd ch) ev p) r]"
      "same_epolls w v"
    by (rule change_events_result [where change = change, OF inv ch ev, of os])
  have w': "v = w'" using run v(1) by simp
  have ext: "extends w w'"
  proof (rule change_events_extends [OF run])
    show "same_dispatch dh (change dh)" for dh using change [of dh] by (auto simp: same_dispatch_def)
  qed
  show ?thesis
    by (rule safe_same_conns [OF _ extendsD [OF ext] _ _ _ _ v(7) [unfolded w']])
      (use v w' ch ev in \<open>auto simp: conn_more closes_def channel_home_def set_index_def\<close>)
qed

lemma channel_remove_safe:
  fixes w w' :: "'a conn_world_scheme"
  assumes run: "channel_remove os p w = Inr w'"
  shows "safe w w'"
proof (cases "world_inv w")
  case False
  then show ?thesis by (simp add: safe_def)
next
  case True
  then have inv: "loops_inv w" by (simp add: world_inv_def)
  from run obtain ch where ch: "cw_channels w p = Some ch" by (auto simp: channel_remove_def bind_simps)
  obtain v lp q evs where v: "channel_remove os p w = Inr v" "loops_inv v"
      "cw_channels v = (cw_channels w)(p \<mapsto> set_index KNew ch)"
      "lw_loops v = (lw_loops w)(ch_loop ch \<mapsto> lp\<lparr>el_poller := q\<rparr>)"
      "lw_next v = lw_next w" "loop_world.more v = loop_world.more w" "io_trace v = io_trace w @ evs"
      "\<forall>ev \<in> set evs. \<exists>e op f m d r. ev = Did (EpollCtl e op f m d) r" "same_epolls w v"
    by (rule channel_remove_result [OF inv ch, of os])
  have w': "v = w'" using run v(1) by simp
  show ?thesis
    by (rule safe_same_conns [OF _ extendsD [OF channel_ops_extends(6) [OF run]] _ _ _ _ v(7) [unfolded w']])
      (use v w' ch in \<open>auto simp: conn_more closes_def dest!: bspec\<close>)
qed

lemma queue_safe:
  fixes w w' :: "'a conn_world_scheme"
  assumes run: "queueInLLoop os l t w = Inr w'"
  shows "safe w w'"
proof -
  from run obtain lp where lp: "lw_loops w l = Some lp" by (auto simp: queueInLLoop_def bind_simps)
  obtain v evs where v: "queueInLLoop os l t w = Inr v"
      "lw_loops v = (lw_loops w)(l \<mapsto> lp\<lparr>el_pendingFunctors := el_pendingFunctors lp @ [t]\<rparr>)"
      "cw_channels v = cw_channels w" "loop_world.more v = loop_world.more w" "lw_next v = lw_next w"
      "io_trace v = io_trace w @ evs" "wakeup_events (el_wakeupFd lp) evs"
    by (rule queueInLLoop_result [OF lp, of os t])
  have w': "v = w'" using run v(1) by simp
  show ?thesis
    by (rule safe_same_conns [OF _ extendsD [OF queueInLLoop_extends [OF run]] _ _ _ _ v(6) [unfolded w']])
      (use v w' lp queueInLLoop_inv [OF _ lp run] in
        \<open>auto simp: world_inv_def conn_more closes_def wakeup_events_def same_epolls_def poller_at_def dest!: bspec\<close>)
qed

lemma run_channel_op_safe:
  "run_channel_op os op p w = Inr w' \<Longrightarrow> safe w w'"
  by (cases op)
    (auto simp: enableReading_def disableReading_def enableWriting_def disableWriting_def disableAll_def
      intro: channel_remove_safe elim!: change_events_safe
      simp: add_read_def del_read_def add_write_def del_write_def del_all_def)

interpretation safe: connection_contract safe
  by unfold_locales
    (auto intro: safe_trans quiet_safe update_safe tie_safe run_channel_op_safe queue_safe)

section \<open>New connections\<close>

lemma TcpConnection_new_safe:
  assumes inv: "world_inv w" and l: "lw_loops w l \<noteq> None"
    and fd: "sockfd \<in> open_fds (io_trace w)" "fresh_fd sockfd w"
      "\<And>l p. poller_at l w = Some p \<Longrightarrow> ep_epollfd p \<noteq> sockfd"
    and new: "TcpConnection_new os l name sockfd la pa w = Inr (c, w')"
  shows "world_inv w' \<and> stays w w' \<and> c = lw_next w \<and>
      (\<exists>conn. tw_conns w' = (tw_conns w)(c \<mapsto> conn) \<and> tc_name conn = name \<and> tc_loop conn = l)"
proof -
  have ad: "addr_ok w" and li: "loops_inv w" and ci: "conns_inv w" and fi: "fds_inv w"
    using inv by (simp_all add: world_inv_def)
  obtain v conn ch r where v: "TcpConnection_new os l name sockfd la pa w = Inr (lw_next w, v)"
      "tw_conns v = (tw_conns w)(lw_next w \<mapsto> conn)"
      "tc_loop conn = l" "tc_name conn = name" "tc_socket conn = sockfd" "tc_channel conn = lw_next w + 1"
      "buf_inv (tc_inputBuffer conn)" "buf_inv (tc_outputBuffer conn)"
      "cw_channels v = (cw_channels w)(lw_next w + 1 \<mapsto> ch)"
      "ch_loop ch = l" "ch_fd ch = sockfd" "ch_index ch = KNew"
      "lw_loops v = lw_loops w" "lw_next v = lw_next w + 2"
      "io_trace v = io_trace w @ [Did (SetSockOpt sockfd SO_KEEPALIVE 1) r]" "extends w v"
    by (rule TcpConnection_new_result [of os l name sockfd la pa w]) blast
  have w': "c = lw_next w" "w' = v" using new v(1) by simp_all
  have free: "cw_channels w (lw_next w) = None" "cw_channels w (lw_next w + 1) = None"
      "tw_conns w (lw_next w) = None"
    using ad ci unfolding addr_ok_def conns_inv_def by (metis domIff less_irrefl not_add_less1 option.exhaust)+
  have "loops_inv v"
    by (rule loops_inv_new_channel [OF li free(2) _ v(9) v(12) _ _ v(15)])
      (use fd l v(10,11,13) in \<open>auto simp: same_pollers_def fresh_fd_def\<close>)
  moreover have "conns_inv v"
  proof -
    have old: False if "tw_conns w d = Some k" "tc_channel k = Suc (lw_next w)" for d k
      using ci that free(2) unfolding conns_inv_def by (metis Suc_eq_plus1 map_option_is_None option.distinct(1))
    have "d < lw_next w" if "tw_conns w d = Some k" for d k
      using ci that unfolding conns_inv_def by blast
    then show ?thesis
      using ci unfolding conns_inv_def v(2,9,14)
      by (auto simp: v(3-8,10,11) channel_home_def less_Suc_eq dest: old old [OF _ sym])
  qed
  moreover have "fds_inv v"
    using fi fd(1) unfolding fds_inv_def v(9,15) by (auto simp: v(11))
  moreover have "epolls_inv v"
    using inv fd(3) unfolding world_inv_def epolls_inv_def poller_at_def v(9,13,15)
    by (auto simp: v(11))
  ultimately have "world_inv v" using extendsD [OF v(16) ad] by (simp add: world_inv_def)
  moreover have "stays w v"
    unfolding stays_def using v(2,9,13,14) free by auto
  ultimately show ?thesis using w' v(2-4) by blast
qed

end
