(* ===== verification/Server_Safety.thy ===== *)
theory Server_Safety
  imports Connection_Safety Server_Facts
begin

text \<open>
  The invariant of the whole program: the world below is in order (\<open>world_inv\<close>), the pool of the
  server hands out loops that exist, its acceptor has its callback, and every entry of its map is a
  connection of that name. \<open>server_safe\<close> says that a step keeps it and destroys nothing. Every
  callback and every task is such a step, when the functions of the user are, so whole rounds of a
  loop are.
\<close>

section \<open>The invariant\<close>

definition server_ok :: "'a conn_world_scheme \<Rightarrow> tcp_server \<Rightarrow> bool" where
  "server_ok w s \<longleftrightarrow>
     pool_inv (sv_threadPool s) \<and>
     set (tp_baseLoop (sv_threadPool s) # tp_loops (sv_threadPool s)) \<subseteq> dom (lw_loops w) \<and>
     ac_callback (sv_acceptor s) \<and>
     (\<forall>name c. sv_connections s name = Some c \<longrightarrow> map_option tc_name (tw_conns w c) = Some name)"

definition program_inv :: "'a server_world_scheme \<Rightarrow> bool" where
  "program_inv w \<longleftrightarrow> world_inv w \<and> (\<forall>s. sw_server w = Some s \<longrightarrow> server_ok w s)"

definition server_safe :: "'a server_world_scheme \<Rightarrow> 'a server_world_scheme \<Rightarrow> bool" where
  "server_safe w w' \<longleftrightarrow> (program_inv w \<longrightarrow> program_inv w' \<and> stays w w')"

lemma server_safe_refl [simp]: "server_safe w w"
  by (simp add: server_safe_def)

lemma server_safe_trans: "server_safe u v \<Longrightarrow> server_safe v w \<Longrightarrow> server_safe u w"
  unfolding server_safe_def using stays_trans by metis

lemma server_ok_stays:
  assumes ok: "server_ok w s" and stays: "stays w w'"
  shows "server_ok w' s"
proof -
  have "map_option tc_name (tw_conns w' c) = Some name" if "map_option tc_name (tw_conns w c) = Some name" for c name
    using that stays by (fastforce simp: stays_def conn_home_def)
  then show ?thesis using ok stays unfolding server_ok_def stays_def by blast
qed

text \<open>A safe step that leaves the server alone.\<close>

lemma safe_server_safe:
  assumes "safe w w'" and "program_inv w \<Longrightarrow> sw_server w' = sw_server w"
  shows "server_safe w w'"
  using assms server_ok_stays [of w _ w'] unfolding server_safe_def program_inv_def safe_def by metis

text \<open>A change of the server alone.\<close>

lemma put_server_safe:
  assumes "program_inv w \<Longrightarrow> server_ok w s"
  shows "server_safe w (put_server s w)"
  unfolding server_safe_def
proof (intro impI conjI)
  assume inv: "program_inv w"
  have "loops_inv (put_server s w)"
    by (rule loops_inv_io [where evs = "[]"]) (use inv in \<open>simp_all add: program_inv_def world_inv_def\<close>)
  moreover have "addr_ok (put_server s w)"
    using inv by (simp add: program_inv_def world_inv_def addr_ok_def)
  moreover have "conns_inv (put_server s w)" "fds_inv (put_server s w)" "epolls_inv (put_server s w)"
    using inv by (simp_all add: program_inv_def world_inv_def conns_inv_def fds_inv_def epolls_inv_def
        poller_at_def)
  moreover have "server_ok (put_server s w) s"
    using assms inv by (simp add: server_ok_def)
  ultimately show "program_inv (put_server s w)" by (simp add: program_inv_def world_inv_def)
  show "stays w (put_server s w)" by (simp add: stays_def)
qed

section \<open>The operations of connections\<close>

lemma run_channel_op_more:
  assumes inv: "loops_inv w" and run: "run_channel_op os op p w = Inr w'"
  shows "loop_world.more w' = loop_world.more w"
proof -
  from run obtain ch where ch: "cw_channels w p = Some ch"
    by (cases op) (auto simp: enableReading_def disableReading_def enableWriting_def disableWriting_def
      disableAll_def change_events_def channel_remove_def bind_simps)
  have change: "loop_world.more w' = loop_world.more w"
    if "change_events change os p w = Inr w'" and "change ch = ch\<lparr>ch_events := ev\<rparr>" for change ev
    by (rule change_events_result [where change = change, OF inv ch that(2), of os]) (use that(1) in simp)
  have "loop_world.more w' = loop_world.more w" if "channel_remove os p w = Inr w'"
    by (rule channel_remove_result [OF inv ch, of os]) (use that in simp)
  with change run show ?thesis
    by (cases op) (auto simp: enableReading_def disableReading_def enableWriting_def disableWriting_def
      disableAll_def add_read_def del_read_def add_write_def del_write_def del_all_def)
qed

lemma queueInLLoop_more:
  "queueInLLoop os l t w = Inr w' \<Longrightarrow> loop_world.more w' = loop_world.more w"
  by (auto simp: queueInLLoop_def wakeup_def bind_simps Let_def sys_write_def
      split: if_splits prod.splits sum.splits)

interpretation server_safe: connection_contract server_safe
proof
  show "server_safe u w" if "server_safe u v" "server_safe v w" for u v w :: "'a server_world_scheme"
    using that by (rule server_safe_trans)
  show "server_safe w w'" if "quiet_step w w'" for w w' :: "'a server_world_scheme"
    using that by (intro safe_server_safe quiet_safe)
      (auto simp: quiet_step_def loop_more conn_more server_more)
  show "server_safe w (put_conn c conn' w)" if "tw_conns w c = Some conn" "same_home conn conn'"
    for w :: "'a server_world_scheme" and c conn conn'
    using that by (intro safe_server_safe update_safe) simp_all
  show "server_safe w (put_channel p (tie c ch) w)" if "cw_channels w p = Some ch"
    for w :: "'a server_world_scheme" and p ch c
    using that by (intro safe_server_safe tie_safe) simp_all
  show "server_safe w w'" if "run_channel_op os op p w = Inr w'" for os op p and w w' :: "'a server_world_scheme"
    using that run_channel_op_more [OF _ that]
    by (intro safe_server_safe run_channel_op_safe)
      (simp_all add: program_inv_def world_inv_def conn_more server_more)
  show "server_safe w w'" if "queueInLLoop os l t w = Inr w'" for os l t and w w' :: "'a server_world_scheme"
    using that queueInLLoop_more [OF that]
    by (intro safe_server_safe queue_safe) (simp_all add: conn_more server_more)
qed simp

section \<open>The operations of the server\<close>

lemma server_okD:
  assumes "program_inv w" and "sw_server w = Some s"
  shows "server_ok w s"
  using assms by (simp add: program_inv_def)

lemma removeConnectionInPool_safe:
  assumes run: "removeConnectionInPool os c w = Inr w'"
  shows "server_safe w w'"
proof -
  from run obtain s conn where s: "sw_server w = Some s" and "tw_conns w c = Some conn"
      and q: "queueInLLoop os (tc_loop conn) (ConnectDestroyed c)
         (put_server (s\<lparr>sv_connections := (sv_connections s)(tc_name conn := None)\<rparr>) w) = Inr w'"
    by (auto simp: removeConnectionInPool_def bind_simps)
  have "server_safe w (put_server (s\<lparr>sv_connections := (sv_connections s)(tc_name conn := None)\<rparr>) w)"
    by (rule put_server_safe) (use server_okD [OF _ s] in \<open>auto simp: server_ok_def\<close>)
  then show ?thesis using server_safe.queue [OF q] by (rule server_safe_trans)
qed

lemma removeConnection_safe: "removeConnection os c w = Inr w' \<Longrightarrow> server_safe w w'"
  by (auto simp: removeConnection_def bind_simps
      dest: server_safe.runInLoop_R [OF _ removeConnectionInPool_safe])

lemma server_callbacks_safe: "callbacks_in server_safe user \<Longrightarrow> callbacks_in server_safe (server_callbacks user os)"
  unfolding callbacks_in_def server_callbacks_def
  by (auto split: conn_fn.splits dest: removeConnection_safe)

lemma server_listen_safe:
  assumes run: "server_listen os w = Inr w'"
  shows "server_safe w w'"
proof -
  from run obtain s v where s: "sw_server w = Some s"
      and v: "enableReading os (ac_channel (sv_acceptor s)) (socket_listen os (ac_socket (sv_acceptor s)) w) = Inr v"
      and w': "w' = put_server (s\<lparr>sv_acceptor := (sv_acceptor s)\<lparr>ac_listening := True\<rparr>\<rparr>) v"
    by (auto simp: server_listen_def acceptor_listen_def bind_simps Let_def)
  have q: "quiet_step w (socket_listen os (ac_socket (sv_acceptor s)) w)"
    by (cases rule: sys_call_cases [of os "ListenSock (ac_socket (sv_acceptor s)) 1024" w])
      (auto simp: socket_listen_def intro: quiet_step_trans [OF _ quiet_steps(2)])
  have safe: "server_safe w v"
    by (rule server_safe_trans [OF server_safe.quiet [OF q] server_safe.channel_steps(1) [OF v]])
  show ?thesis
  proof (cases "program_inv w")
    case True
    then have "server_ok v s"
      using safe server_okD [OF True s] server_ok_stays by (auto simp: server_safe_def)
    then have "server_safe v w'"
      unfolding w' by (intro put_server_safe) (simp add: server_ok_def)
    with safe show ?thesis by (rule server_safe_trans)
  qed (simp add: server_safe_def)
qed

section \<open>Accepting\<close>

text \<open>The documented contract of the kernel: a new descriptor is not one that is open.\<close>

definition fresh_descriptors :: "os \<Rightarrow> bool" where
  "fresh_descriptors os \<longleftrightarrow> (\<forall>h k f. os_open os h k = Inr f \<longrightarrow> int f \<notin> open_fds h)"

lemma local_address_quiet: "local_address os f w = (a, w') \<Longrightarrow> quiet_step w w'"
  by (auto simp: local_address_def split: sum.splits intro: quiet_step_trans [OF quiet_steps(3) quiet_steps(2)])

lemma quiet_open_fds:
  assumes "quiet_step w w'"
  shows "open_fds (io_trace w) \<subseteq> open_fds (io_trace w')"
proof -
  from assms obtain evs where evs: "io_trace w' = io_trace w @ evs" "\<forall>ev \<in> set evs. harmless ev"
    by (auto simp: quiet_step_def)
  show ?thesis unfolding evs(1) by (rule open_fds_grow) (use evs(2) harmless_closes in blast)
qed

lemma getNextLoop_loop:
  assumes "pool_inv p" and "getNextLoop p = Inr (l, p')"
  shows "l \<in> set (tp_baseLoop p # tp_loops p)" and "tp_baseLoop p' = tp_baseLoop p"
  using assms by (auto simp: getNextLoop_def Let_def pool_inv_def split: if_splits)

lemma newConnection_safe:
  assumes cbs: "callbacks_in server_safe cbs" and fd: "f \<in> open_fds (io_trace w)" "fresh_fd f w"
      "\<And>l p. poller_at l w = Some p \<Longrightarrow> ep_epollfd p \<noteq> f"
    and run: "newConnection cbs os f peer w = Inr w'"
  shows "server_safe w w'"
proof (cases "program_inv w")
  case False
  then show ?thesis by (simp add: server_safe_def)
next
  case True
  from run obtain s l pool where s: "sw_server w = Some s"
      and next_loop: "getNextLoop (sv_threadPool s) = Inr (l, pool)" and "sv_nextConnId s \<noteq> 2147483647"
    by (auto simp: newConnection_def bind_simps Let_def split: if_splits)
  note sok = server_okD [OF True s]
  let ?name = "conn_name s (sv_nextConnId s)"
  obtain la w1 where la: "local_address os f w = (la, w1)" by fastforce
  note q = local_address_quiet [OF la]
  have inv1: "program_inv w1" and st1: "stays w w1"
    using server_safe.quiet [OF q] True by (simp_all add: server_safe_def)
  have same1: "sw_server w1 = Some s" "cw_channels w1 = cw_channels w" "lw_loops w1 = lw_loops w"
    using q s by (simp_all add: quiet_step_def loop_more conn_more server_more)
  have fd1: "f \<in> open_fds (io_trace w1)" "fresh_fd f w1"
      "\<And>l p. poller_at l w1 = Some p \<Longrightarrow> ep_epollfd p \<noteq> f"
    using q fd subsetD [OF quiet_open_fds [OF q]]
    by (auto simp: quiet_step_def fresh_fd_def poller_at_def same1)
  have l: "lw_loops w1 l \<noteq> None"
    using getNextLoop_loop(1) [OF _ next_loop] sok by (auto simp: server_ok_def same1)
  obtain w2 where new: "TcpConnection_new os l ?name f la peer w1 = Inr (lw_next w1, w2)"
      and more2: "conn_world.more w2 = conn_world.more w1"
    by (rule TcpConnection_new_result [of os l ?name f la peer w1])
  have "world_inv w1" using inv1 by (simp add: program_inv_def)
  then have "world_inv w2 \<and> stays w1 w2 \<and> lw_next w1 = lw_next w1 \<and>
      (\<exists>conn. tw_conns w2 = (tw_conns w1)(lw_next w1 \<mapsto> conn) \<and> tc_name conn = ?name \<and> tc_loop conn = l)"
    by (rule TcpConnection_new_safe [OF _ l fd1(1,2) _ new]) (rule fd1(3))
  then obtain conn where inv2: "world_inv w2" and st2: "stays w1 w2"
      and conn: "tw_conns w2 (lw_next w1) = Some conn" "tc_name conn = ?name"
    by auto
  have server2: "sw_server w2 = Some s" using more2 same1 by (simp add: server_more)
  have ok2: "server_ok w2 s"
    by (rule server_ok_stays [OF server_ok_stays [OF sok st1] st2])
  then have pinv2: "program_inv w2" using inv2 server2 by (simp add: program_inv_def)
  let ?s = "s\<lparr>sv_threadPool := pool, sv_nextConnId := sv_nextConnId s + 1,
      sv_connections := (sv_connections s)(?name \<mapsto> lw_next w1)\<rparr>"
  have "server_ok w2 ?s"
    using ok2 conn getNextLoop_inv [OF _ next_loop] getNextLoop_loop(2) [OF _ next_loop]
    by (auto simp: server_ok_def)
  then have step3: "server_safe w2 (put_server ?s w2)" by (rule put_server_safe)
  from run s next_loop la new conn(1) \<open>sv_nextConnId s \<noteq> 2147483647\<close> obtain conn' where
      r: "runInLoop os l (ConnectEstablished (lw_next w1)) (connectEstablished cbs os (lw_next w1))
         (put_conn (lw_next w1) conn' (put_server ?s w2)) = Inr w'" and home: "same_home conn conn'"
    by (auto simp: newConnection_def bind_simps Let_def same_home_def setConnectionCallback_def
        setMessageCallback_def setWriteCompleteCallback_def setConnCloseCallback_def)
  have "server_safe (put_server ?s w2) (put_conn (lw_next w1) conn' (put_server ?s w2))"
    by (rule server_safe.update [OF _ home]) (simp add: conn)
  moreover have "server_safe (put_conn (lw_next w1) conn' (put_server ?s w2)) w'"
    by (rule server_safe.runInLoop_R [OF r]) (rule server_safe.connectEstablished_R [OF cbs])
  ultimately have "server_safe w2 w'" using step3 by (blast intro: server_safe_trans)
  with pinv2 st1 st2 show ?thesis
    unfolding server_safe_def using stays_trans by metis
qed

lemma server_acceptRead_safe:
  assumes cbs: "callbacks_in server_safe cbs" and os: "fresh_descriptors os"
    and run: "server_acceptRead cbs os w = Inr w'"
  shows "server_safe w w'"
proof (cases "program_inv w")
  case False
  then show ?thesis by (simp add: server_safe_def)
next
  case True
  let ?dflt = "\<lparr>sin_family = AF_INET, sin_port = htons 0, sin_addr = 16777343\<rparr>"
  from run obtain s where s: "sw_server w = Some s"
      and acc: "acceptor_handleRead os (newConnection cbs os) ?dflt (sv_acceptor s) w = Inr w'"
    by (auto simp: server_acceptRead_def bind_simps)
  let ?k = "Accept4 (ac_socket (sv_acceptor s))"
  have cb: "ac_callback (sv_acceptor s)" using server_okD [OF True s] by (simp add: server_ok_def)
  show ?thesis
  proof (cases rule: sys_open_cases [of os ?k w])
    case (fail e)
    with acc have "quiet_step w w'"
      by (auto simp: quiet_step_def acceptor_handleRead_def socket_accept_def Let_def)
    then show ?thesis by (rule server_safe.quiet)
  next
    case (ok f)
    let ?w = "note_event (Opened ?k (int f)) w"
    from ok have "os_open os (io_trace w) ?k = Inr f"
      by (auto simp: sys_open_def note_event_def split: sum.splits)
    with os have "int f \<notin> open_fds (io_trace w)" by (auto simp: fresh_descriptors_def)
    moreover have "fds_inv w" using True by (simp add: program_inv_def world_inv_def)
    ultimately have "fresh_fd (int f) ?w" unfolding fds_inv_def fresh_fd_def by simp metis
    moreover have "epolls_inv w" using True by (simp add: program_inv_def world_inv_def)
    then have "ep_epollfd p \<noteq> int f" if "poller_at l ?w = Some p" for l p
      using that \<open>int f \<notin> open_fds (io_trace w)\<close> unfolding epolls_inv_def poller_at_def by simp metis
    moreover have "int f \<in> open_fds (io_trace ?w)" by simp
    moreover obtain peer where "newConnection cbs os (int f) peer ?w = Inr w'"
      using acc ok cb by (auto simp: acceptor_handleRead_def socket_accept_def Let_def)
    ultimately have "server_safe ?w w'" using newConnection_safe [OF cbs] by blast
    moreover have "server_safe w ?w" by (rule server_safe.quiet) simp
    ultimately show ?thesis by (blast intro: server_safe_trans)
  qed
qed

section \<open>Callbacks and tasks\<close>

lemma loop_handleRead_quiet:
  assumes "loop_handleRead os l w = Inr w'"
  shows "quiet_step w w'"
proof -
  from assms obtain lp where lp: "lw_loops w l = Some lp" by (auto simp: loop_handleRead_def bind_simps)
  obtain n got v where v: "sys_read os (el_wakeupFd lp) 8 w = (n, got, v)" by (metis prod_cases3)
  with assms lp have "w' = (if n \<noteq> 8
      then note_log ERROR ''EventLoop::handleRead() reads %lu bytes instead of 8'' v else v)"
    by (auto simp: loop_handleRead_def)
  with quiet_calls(2) [OF v] show ?thesis by (auto intro: quiet_step_trans)
qed

lemma run_callback_safe:
  assumes "callbacks_in server_safe user" and "fresh_descriptors os" and "run_callback user os cb t w = Inr w'"
  shows "server_safe w w'"
  using assms(3) server_callbacks_safe [OF assms(1), of os] assms(2)
  by (cases cb) (auto intro: server_safe.quiet loop_handleRead_quiet server_acceptRead_safe
      server_safe.handleRead_R server_safe.handleWrite_R server_safe.handleClose_R server_safe.handleError_R)

lemma run_task_safe:
  assumes ok: "callbacks_in server_safe user" and "run_task user os t w = Inr w'"
  shows "server_safe w w'"
  using assms(2) server_callbacks_safe [OF assms(1), of os] callbacks_inD [OF ok]
  by (cases t) (auto intro: server_safe.sendInLoop_R server_safe.shutdownInLoop_R
      server_safe.connectEstablished_R server_safe.connectDestroyed_R server_listen_safe
      removeConnectionInPool_safe)

section \<open>Rounds of a loop\<close>

lemma put_loop_safe:
  assumes lp: "lw_loops w l = Some lp" and same: "el_poller lp' = el_poller lp"
  shows "server_safe w (put_loop l lp' w)"
proof (rule safe_server_safe)
  show "safe w (put_loop l lp' w)"
  proof (rule safe_same_conns [where evs = "[]"])
    show "world_inv w \<Longrightarrow> loops_inv (put_loop l lp' w)"
      by (rule loops_inv_frame [where evs = "[]"])
        (use assms in \<open>auto simp: world_inv_def same_pollers_def\<close>)
  qed (use assms in \<open>auto simp: same_epolls_def poller_at_def\<close>)
  show "sw_server (put_loop l lp' w) = sw_server w" by simp
qed

lemma loop_poll_safe:
  fixes w w' :: "'a server_world_scheme"
  assumes os: "reports_registered os" and run: "loop_poll os l w = Inr w'"
  shows "server_safe w w'"
proof (cases "program_inv w")
  case False
  then show ?thesis by (simp add: server_safe_def)
next
  case True
  then have inv: "loops_inv w" by (simp add: program_inv_def world_inv_def)
  from run obtain lp where lp: "lw_loops w l = Some lp" by (auto simp: loop_poll_def bind_simps)
  obtain v lp' where "loop_poll os l w = Inr v" "loops_inv v"
      "same_registrations (cw_channels w) (cw_channels v)" "io_trace v = io_trace w"
      "loop_world.more v = loop_world.more w" "dom (lw_loops v) = dom (lw_loops w)" "lw_next v = lw_next w"
      "same_epolls w v"
    by (rule loop_poll_result [OF inv lp os])
  then have w': "loops_inv w'" "same_registrations (cw_channels w) (cw_channels w')" "io_trace w' = io_trace w"
      "loop_world.more w' = loop_world.more w" "dom (lw_loops w') = dom (lw_loops w)" "lw_next w' = lw_next w"
      "same_epolls w w'"
    using run by simp_all
  have home: "map_option channel_home (cw_channels w' p) = map_option channel_home (cw_channels w p)" for p
  proof -
    have "map_option channel_home x = map_option (\<lambda>(l, f, _). (l, f)) (map_option registration x)" for x
      by (cases x) (simp_all add: channel_home_def registration_def)
    then show ?thesis using w'(2) by (simp add: same_registrations_def)
  qed
  have "safe w w'"
    by (rule safe_same_conns [where evs = "[]", OF _ loop_poll_addr [OF run] home])
      (use w' in \<open>auto simp: conn_more\<close>)
  then show ?thesis
    by (rule safe_server_safe) (use w'(4) in \<open>simp add: conn_more server_more\<close>)
qed

lemma foldE_safe:
  assumes "foldE f xs w = Inr w'" and "\<And>x v v'. f x v = Inr v' \<Longrightarrow> server_safe v v'"
  shows "server_safe w w'"
  by (rule foldE_invariant [OF assms(1), where P = "server_safe w"])
    (auto intro: server_safe_trans assms(2))

lemma handleEvent_safe:
  assumes cb: "\<And>cb t v v'. run cb t v = Inr v' \<Longrightarrow> server_safe v v'"
    and h: "handleEvent alive run c t w = Inr w'"
  shows "server_safe w w'"
proof -
  have fire: "server_safe u u'" if "fire run due sel p t u = Inr u'" for due sel p t u u'
    using that by (auto simp: fire_def bind_simps split: if_splits option.splits intro: cb)
  have "server_safe w w'" if "handleEventWithGuard run c t w = Inr w'"
    using that by (auto simp: handleEventWithGuard_def bind_simps dest!: fire intro: server_safe_trans)
  with h show ?thesis
    by (auto simp: handleEvent_def bind_simps split: if_splits option.splits)
qed

lemma doPendingFunctors_safe:
  assumes exec: "\<And>t v v'. exec t v = Inr v' \<Longrightarrow> server_safe v v'"
    and run: "doPendingFunctors exec l w = Inr w'"
  shows "server_safe w w'"
proof -
  from run obtain lp w2 lp2 where lp: "lw_loops w l = Some lp"
      and f: "foldE exec (el_pendingFunctors lp)
        (put_loop l (lp\<lparr>el_callingPendingFunctors := True, el_pendingFunctors := []\<rparr>) w) = Inr w2"
      and lp2: "lw_loops w2 l = Some lp2"
      and w': "w' = put_loop l (lp2\<lparr>el_callingPendingFunctors := False\<rparr>) w2"
    by (auto simp: doPendingFunctors_def bind_simps Let_def)
  have "server_safe w (put_loop l (lp\<lparr>el_callingPendingFunctors := True, el_pendingFunctors := []\<rparr>) w)"
    by (rule put_loop_safe [OF lp]) simp
  moreover have "server_safe (put_loop l (lp\<lparr>el_callingPendingFunctors := True, el_pendingFunctors := []\<rparr>) w) w2"
    by (rule foldE_safe [OF f]) (rule exec)
  moreover have "server_safe w2 w'" unfolding w' by (rule put_loop_safe [OF lp2]) simp
  ultimately show ?thesis by (blast intro: server_safe_trans)
qed

lemma loop_iteration_safe:
  assumes user: "callbacks_in server_safe user" and os: "fresh_descriptors os" "reports_registered os"
    and run: "loop_iteration os conn_alive (run_callback user os) (run_task user os) l w = Inr w'"
  shows "server_safe w w'"
proof -
  from run obtain w1 lp w2 where p: "loop_poll os l w = Inr w1" and "lw_loops w1 l = Some lp"
      and h: "foldE (\<lambda>c. handleEvent conn_alive (run_callback user os) c (el_pollReturnTime lp))
        (el_activeChannels lp) w1 = Inr w2"
      and d: "doPendingFunctors (run_task user os) l w2 = Inr w'"
    by (auto simp: loop_iteration_def bind_simps)
  have "server_safe w w1" by (rule loop_poll_safe [OF os(2) p])
  moreover have "server_safe w1 w2"
    by (rule foldE_safe [OF h]) (rule handleEvent_safe, erule run_callback_safe [OF user os(1)])
  moreover have "server_safe w2 w'"
    by (rule doPendingFunctors_safe [OF _ d]) (rule run_task_safe [OF user])
  ultimately show ?thesis by (blast intro: server_safe_trans)
qed

end
