(* ===== verification/Ownership.thy ===== *)
theory Ownership
  imports Server_Safety
begin

text \<open>
  The end of a round: the connections that nobody owns any more are destroyed. When every
  connection that is still registered with its loop has an owner (\<open>owners_inv\<close>), the destruction
  succeeds, closes each descriptor once, and keeps the invariant of the program.
\<close>

section \<open>Destroying what nobody owns\<close>

text \<open>A channel that no poller knows may go, and its descriptor be closed.\<close>

lemma loops_inv_close:
  assumes inv: "loops_inv w" and ep: "epolls_inv w"
    and ch: "cw_channels w q = Some ch" "ch_index ch = KNew"
    and w': "lw_loops w' = lw_loops w" "cw_channels w' = (cw_channels w)(q := None)"
      "io_trace w' = io_trace w @ [Did (CloseFd (ch_fd ch)) r]"
  shows "loops_inv w'"
proof -
  have at: "poller_at l w' = poller_at l w" for l by (simp add: poller_at_def w')
  have keep: "poller_inv l p w'" if p: "poller_at l w = Some p" and pinv: "poller_inv l p w" for l p
  proof (rule poller_invI)
    let ?e = "ep_epollfd p"
    have mapped: "c \<noteq> q" if "ep_channels p f = Some c" for f c
      using poller_inv_map [OF pinv that] ch by auto
    have unmapped: "ep_channels p (ch_fd ch) = None"
    proof (rule ccontr)
      assume "ep_channels p (ch_fd ch) \<noteq> None"
      then obtain c where c: "ep_channels p (ch_fd ch) = Some c" by auto
      from poller_inv_map [OF pinv c] obtain dh where "cw_channels w c = Some dh" "ch_fd dh = ch_fd ch" by blast
      with loops_invD(4) [OF inv this(1) ch(1)] mapped [OF c] show False by simp
    qed
    have ne: "ch_fd ch \<noteq> ?e" using ep p ch(1) unfolding epolls_inv_def by blast
    have "interest ?e (io_trace w) (ch_fd ch) = None"
      using poller_inv_interest [OF pinv, of "ch_fd ch"] unmapped by blast
    then have same: "interest ?e (io_trace w') = interest ?e (io_trace w)"
      using ne by (simp add: w' interest_snoc fun_upd_idem)
    show "legal_trace ?e (io_trace w')"
      using poller_inv_legal [OF pinv] by (simp add: w' legal_trace_snoc)
    show "\<exists>dh. cw_channels w' c = Some dh \<and> ch_loop dh = l \<and> ch_fd dh = f \<and> ch_index dh \<noteq> KNew"
      if "ep_channels p f = Some c" for f c
      using poller_inv_map [OF pinv that] mapped [OF that] by (simp add: w')
    show "interest ?e (io_trace w') f \<noteq> None \<Longrightarrow> ep_channels p f \<noteq> None" for f
      unfolding same by (rule poller_inv_interest [OF pinv])
    show "ch_index dh \<in> {KNew, KAdded, KDeleted} \<and>
      (ch_index dh \<noteq> KNew \<longrightarrow> ep_channels p (ch_fd dh) = Some c) \<and>
      (ch_index dh = KAdded \<longrightarrow> interest ?e (io_trace w') (ch_fd dh) = Some (ch_events dh, c)) \<and>
      (ch_index dh = KDeleted \<longrightarrow> interest ?e (io_trace w') (ch_fd dh) = None)"
      if "cw_channels w' c = Some dh" "ch_loop dh = l" for c dh
      unfolding same using poller_inv_chan [OF pinv, of c dh] that by (simp add: w' split: if_splits)
  qed
  show ?thesis
    unfolding loops_inv_def at
  proof (intro conjI allI impI)
    show "\<exists>p. poller_at l w = Some p \<and> poller_inv l p w'" if "lw_loops w' l = Some lp" for l lp
      using that loops_invD(1) [OF inv, of l] keep by (auto simp: w' poller_at_def)
    show "poller_at l w = Some p \<and> poller_at l' w = Some p' \<and> ep_epollfd p = ep_epollfd p' \<Longrightarrow> l = l'"
      for l l' p p' using loops_invD(2) [OF inv] by blast
    show "lw_loops w' (ch_loop dh) \<noteq> None" if "cw_channels w' c = Some dh" for c dh
      using that loops_invD(3) [OF inv, of c] by (auto simp: w' split: if_splits)
    show "c = d" if "cw_channels w' c = Some eh \<and> cw_channels w' d = Some dh \<and> ch_fd eh = ch_fd dh"
      for c d eh dh
      using that loops_invD(4) [OF inv, of c eh d dh] by (auto simp: w' split: if_splits)
  qed
qed

text \<open>A connection that was taken out of its loop.\<close>

definition retired :: "'a conn_world_scheme \<Rightarrow> connection \<Rightarrow> bool" where
  "retired w conn \<longleftrightarrow> map_option ch_index (cw_channels w (tc_channel conn)) = Some KNew"

lemma TcpConnection_delete_result:
  assumes inv: "world_inv w" and conn: "tw_conns w c = Some conn" and out: "retired w conn"
  obtains w' r where "TcpConnection_delete os c w = Inr w'" and "world_inv w'"
    and "tw_conns w' = (tw_conns w)(c := None)"
    and "cw_channels w' = (cw_channels w)(tc_channel conn := None)"
    and "lw_loops w' = lw_loops w" and "lw_next w' = lw_next w" and "conn_world.more w' = conn_world.more w"
    and "io_trace w' = io_trace w @ [Did (CloseFd (tc_socket conn)) r]"
proof -
  have ad: "addr_ok w" and li: "loops_inv w" and ci: "conns_inv w" and fi: "fds_inv w" and ei: "epolls_inv w"
    using inv by (simp_all add: world_inv_def)
  obtain ch where ch: "cw_channels w (tc_channel conn) = Some ch" "ch_index ch = KNew"
    using out by (auto simp: retired_def)
  have fd: "ch_fd ch = tc_socket conn"
    using ci conn ch(1) unfolding conns_inv_def by (force simp: channel_home_def)
  let ?v = "w\<lparr>tw_conns := (tw_conns w)(c := None), cw_channels := (cw_channels w)(tc_channel conn := None)\<rparr>"
  obtain n w' where s: "sys_call os (CloseFd (tc_socket conn)) ?v = (n, w')" by fastforce
  then obtain r where tr: "io_trace w' = io_trace w @ [Did (CloseFd (tc_socket conn)) r]"
      and chans: "cw_channels w' = (cw_channels w)(tc_channel conn := None)"
      and more: "chan_world.more w' = chan_world.more ?v"
    by (cases rule: sys_call_cases [of os "CloseFd (tc_socket conn)" ?v]) auto
  have w': "lw_loops w' = lw_loops w" "lw_next w' = lw_next w" "tw_conns w' = (tw_conns w)(c := None)"
      "conn_world.more w' = conn_world.more w"
    using more by (simp_all add: loop_more conn_more)
  have run: "TcpConnection_delete os c w = Inr w'"
    using conn s by (simp add: TcpConnection_delete_def Socket_delete_def)
  have "loops_inv w'"
    by (rule loops_inv_close [OF li ei ch w'(1) chans]) (simp add: tr fd)
  moreover have "addr_ok w'" using ad unfolding addr_ok_def w'(1,2) chans by auto
  moreover have other: "tc_channel k \<noteq> tc_channel conn" if "tw_conns w d = Some k" "d \<noteq> c" for d k
    using ci conn that unfolding conns_inv_def by metis
  then have "conns_inv w'"
    using ci unfolding conns_inv_def w'(2,3) chans by (auto split: if_splits)
  moreover have still: "f \<in> open_fds (io_trace w')" if "f \<in> open_fds (io_trace w)" "f \<noteq> tc_socket conn" for f
    using that by (simp add: tr)
  then have "fds_inv w'"
    using fi loops_invD(4) [OF li ch(1)] fd unfolding fds_inv_def chans
    by (auto split: if_splits) metis
  moreover have "epolls_inv w'"
  proof -
    have "ep_epollfd p \<noteq> tc_socket conn" if "poller_at l w = Some p" for l p
      using ei that ch(1) fd unfolding epolls_inv_def by metis
    then show ?thesis
      using ei still unfolding epolls_inv_def poller_at_def w'(1) chans by (auto split: if_splits)
  qed
  ultimately have "world_inv w'" by (simp add: world_inv_def)
  then show ?thesis by (rule that [OF run _ w'(3) chans w'(1,2,4) tr])
qed


text \<open>Every connection that is still registered with its loop has an owner.\<close>

definition owners_inv :: "'a server_world_scheme \<Rightarrow> bool" where
  "owners_inv w \<longleftrightarrow> (\<forall>c conn. tw_conns w c = Some conn \<and> \<not> retired w conn \<longrightarrow> owned w c)"

definition closed_fds :: "io_event list \<Rightarrow> int list" where
  "closed_fds evs = concat (map (\<lambda>ev. case ev of Did (CloseFd f) r \<Rightarrow> [f] | _ \<Rightarrow> []) evs)"

lemma closed_fds_simps [simp]:
  "closed_fds [] = []" "closed_fds (xs @ ys) = closed_fds xs @ closed_fds ys"
  "closed_fds [Did (CloseFd f) r] = [f]"
  by (simp_all add: closed_fds_def)

definition socket_of :: "'a conn_world_scheme \<Rightarrow> conn_ptr \<Rightarrow> int" where
  "socket_of w c = (case tw_conns w c of None \<Rightarrow> -1 | Some conn \<Rightarrow> tc_socket conn)"

definition unowned :: "'a server_world_scheme \<Rightarrow> conn_ptr \<Rightarrow> bool" where
  "unowned w c \<longleftrightarrow> tw_conns w c \<noteq> None \<and> \<not> owned w c"

text \<open>The state when the addresses below \<open>k\<close> have been looked at.\<close>

definition released_below :: "nat \<Rightarrow> 'a server_world_scheme \<Rightarrow> 'a server_world_scheme \<Rightarrow> bool" where
  "released_below k w v \<longleftrightarrow>
     world_inv v \<and> sw_server v = sw_server w \<and> lw_loops v = lw_loops w \<and> lw_next v = lw_next w \<and>
     tw_conns v = (\<lambda>c. if c < k \<and> unowned w c then None else tw_conns w c) \<and>
     (\<forall>c conn. tw_conns v c = Some conn \<longrightarrow>
        cw_channels v (tc_channel conn) = cw_channels w (tc_channel conn)) \<and>
     (\<exists>evs. io_trace v = io_trace w @ evs \<and> closed_fds evs = map (socket_of w) (filter (unowned w) [0..<k]))"

lemma released_belowI:
  assumes "world_inv v" and "sw_server v = sw_server w" and "lw_loops v = lw_loops w"
    and "lw_next v = lw_next w"
    and "tw_conns v = (\<lambda>c. if c < k \<and> unowned w c then None else tw_conns w c)"
    and "\<And>c conn. tw_conns v c = Some conn \<Longrightarrow>
        cw_channels v (tc_channel conn) = cw_channels w (tc_channel conn)"
    and "io_trace v = io_trace w @ evs"
    and "closed_fds evs = map (socket_of w) (filter (unowned w) [0..<k])"
  shows "released_below k w v"
  unfolding released_below_def using assms by blast

lemma release_step:
  assumes own: "owners_inv w" and rel: "released_below k w v"
  obtains v' where "release_conn os k v = Inr v'" and "released_below (Suc k) w v'"
proof -
  have v: "world_inv v" "sw_server v = sw_server w" "lw_loops v = lw_loops w" "lw_next v = lw_next w"
      "tw_conns v = (\<lambda>c. if c < k \<and> unowned w c then None else tw_conns w c)"
      "\<And>c conn. tw_conns v c = Some conn \<Longrightarrow>
        cw_channels v (tc_channel conn) = cw_channels w (tc_channel conn)"
    using rel by (auto simp: released_below_def)
  obtain evs where evs: "io_trace v = io_trace w @ evs"
      "closed_fds evs = map (socket_of w) (filter (unowned w) [0..<k])"
    using rel by (auto simp: released_below_def)
  have same: "tw_conns v k = tw_conns w k" "owned v k = owned w k"
    by (simp_all add: v owned_def pending_def)
  show ?thesis
  proof (cases "unowned w k")
    case False
    then have "release_conn os k v = Inr v" using same by (auto simp: release_conn_def unowned_def)
    then show ?thesis
    proof (rule that)
      have "tw_conns v = (\<lambda>c. if c < Suc k \<and> unowned w c then None else tw_conns w c)"
        using False by (auto simp: v(5) less_Suc_eq fun_eq_iff)
      then show "released_below (Suc k) w v"
        by (rule released_belowI [OF v(1-4) _ v(6) evs(1)]) (simp_all add: evs(2) False)
    qed
  next
    case True
    then obtain conn where conn: "tw_conns w k = Some conn" "\<not> owned w k" by (auto simp: unowned_def)
    then have conn': "tw_conns v k = Some conn" using same by simp
    have "retired w conn" using own conn unfolding owners_inv_def by blast
    then have out: "retired v conn" using v(6) [OF conn'] by (simp add: retired_def)
    obtain v' r where d: "TcpConnection_delete os k v = Inr v'" "world_inv v'"
        "tw_conns v' = (tw_conns v)(k := None)" "cw_channels v' = (cw_channels v)(tc_channel conn := None)"
        "lw_loops v' = lw_loops v" "lw_next v' = lw_next v" "conn_world.more v' = conn_world.more v"
        "io_trace v' = io_trace v @ [Did (CloseFd (tc_socket conn)) r]"
      by (rule TcpConnection_delete_result [OF v(1) conn' out, of os])
    have "release_conn os k v = Inr v'" using same conn d(1) by (simp add: release_conn_def)
    then show ?thesis
    proof (rule that)
      have conns: "tw_conns v' = (\<lambda>c. if c < Suc k \<and> unowned w c then None else tw_conns w c)"
        using True by (auto simp: d(3) v(5) less_Suc_eq fun_eq_iff)
      have chans: "cw_channels v' (tc_channel dconn) = cw_channels w (tc_channel dconn)"
        if "tw_conns v' e = Some dconn" for e dconn
      proof -
        from that have "tw_conns v e = Some dconn" "e \<noteq> k" by (auto simp: d(3) split: if_splits)
        moreover have "tc_channel dconn \<noteq> tc_channel conn"
          using v(1) calculation conn' unfolding world_inv_def conns_inv_def by metis
        ultimately show ?thesis using v(6) by (simp add: d(4))
      qed
      have cl: "closed_fds (evs @ [Did (CloseFd (tc_socket conn)) r]) =
          map (socket_of w) (filter (unowned w) [0..<Suc k])"
        using True conn evs(2) by (simp add: socket_of_def)
      have tr: "io_trace v' = io_trace w @ evs @ [Did (CloseFd (tc_socket conn)) r]"
        by (simp add: d(8) evs(1))
      have srv: "sw_server v' = sw_server w" "lw_loops v' = lw_loops w" "lw_next v' = lw_next w"
        using d(5-7) v(2-4) by (simp_all add: server_more)
      show "released_below (Suc k) w v'"
        by (rule released_belowI [OF d(2) srv conns chans tr cl])
    qed
  qed
qed

lemma release_below:
  assumes "owners_inv w" and "world_inv w"
  shows "\<exists>v. foldE (release_conn os) [0..<k] w = Inr v \<and> released_below k w v"
proof (induction k)
  case 0
  have "released_below 0 w w" using assms(2) by (simp add: released_below_def)
  then show ?case by simp
next
  case (Suc k)
  then obtain v where v: "foldE (release_conn os) [0..<k] w = Inr v" "released_below k w v" by blast
  obtain v' where v': "release_conn os k v = Inr v'" "released_below (Suc k) w v'"
    by (rule release_step [OF assms(1) v(2)])
  have "foldE (release_conn os) [0..<Suc k] w = Inr v'" using v(1) v'(1) by (simp add: foldE_append)
  with v'(2) show ?case by blast
qed

lemma release_unowned_result:
  assumes inv: "program_inv w" and own: "owners_inv w"
  obtains w' evs where "release_unowned os w = Inr w'" and "program_inv w'"
    and "tw_conns w' = (\<lambda>c. if unowned w c then None else tw_conns w c)"
    and "sw_server w' = sw_server w" and "lw_loops w' = lw_loops w"
    and "io_trace w' = io_trace w @ evs"
    and "closed_fds evs = map (socket_of w) (filter (unowned w) [0..<lw_next w])"
proof -
  have wi: "world_inv w" using inv by (simp add: program_inv_def)
  obtain w' where w': "release_unowned os w = Inr w'" "released_below (lw_next w) w w'"
    using release_below [OF own wi] unfolding release_unowned_def by blast
  have lt: "c < lw_next w" if "unowned w c" for c
    using that wi by (auto simp: unowned_def world_inv_def conns_inv_def)
  have conns: "tw_conns w' = (\<lambda>c. if unowned w c then None else tw_conns w c)"
    using w'(2) lt by (auto simp: released_below_def fun_eq_iff)
  have "server_ok w' s" if s: "sw_server w' = Some s" for s
  proof -
    have s': "sw_server w = Some s" using s w'(2) by (simp add: released_below_def)
    then have ok: "server_ok w s" using inv by (simp add: program_inv_def)
    have "\<not> unowned w c" if "sv_connections s name = Some c" for name c
    proof -
      from ok that obtain conn where "tw_conns w c = Some conn" "tc_name conn = name"
        unfolding server_ok_def map_option_eq_Some by metis
      with that s' show ?thesis by (simp add: unowned_def owned_def)
    qed
    then show ?thesis
      using ok w'(2) by (auto simp: server_ok_def conns released_below_def)
  qed
  then have "program_inv w'" using w'(2) by (simp add: program_inv_def released_below_def)
  moreover obtain evs where "io_trace w' = io_trace w @ evs"
      "closed_fds evs = map (socket_of w) (filter (unowned w) [0..<lw_next w])"
    using w'(2) unfolding released_below_def by blast
  ultimately show ?thesis
    using that w' conns by (simp add: released_below_def)
qed

end
