(* ===== verification/Server_Properties.thy ===== *)
theory Server_Properties
  imports Echo_Server Ownership
begin

text \<open>
  The promises of the running server: the functions of the echo server keep what the event loop
  relies on, so a round of a loop keeps the invariant of the whole program.
\<close>

section \<open>The functions of the echo server are safe\<close>

lemma strings_safe:
  assumes "lw_next w \<le> n"
  shows "server_safe w (w\<lparr>lw_next := n, tw_strs := ss\<rparr>)"
proof (rule safe_server_safe)
  show "safe w (w\<lparr>lw_next := n, tw_strs := ss\<rparr>)"
  proof (rule safe_same_conns [where evs = "[]"])
    show "world_inv w \<Longrightarrow> loops_inv (w\<lparr>lw_next := n, tw_strs := ss\<rparr>)"
      by (rule loops_inv_io [where evs = "[]"]) (simp_all add: world_inv_def)
    show "addr_ok w \<Longrightarrow> addr_ok (w\<lparr>lw_next := n, tw_strs := ss\<rparr>)"
      using assms less_le_trans unfolding addr_ok_def by simp blast
  qed (use assms in simp_all)
qed simp

lemma onConnection_safe:
  "onConnection os c w = Inr w' \<Longrightarrow> server_safe w w'"
  by (auto simp: onConnection_def bind_simps split: if_splits dest: server_safe.shutdown_R)

lemma onMessage_safe:
  assumes run: "onMessage os c t w = Inr w'"
  shows "server_safe w w'"
proof -
  from run obtain conn msg inb v where conn: "tw_conns w c = Some conn"
      and msg: "retrieveAllAsString (tc_inputBuffer conn) = Inr (msg, inb)"
      and send: "send os (lw_next w) c (put_conn c (conn\<lparr>tc_inputBuffer := inb\<rparr>)
         (w\<lparr>lw_next := lw_next w + 1, tw_strs := (tw_strs w)(lw_next w \<mapsto> msg)\<rparr>)) = Inr v"
      and w': "w' = v\<lparr>tw_strs := (tw_strs v)(lw_next w := None)\<rparr>"
    by (auto simp: onMessage_def bind_simps Let_def)
  let ?w1 = "w\<lparr>lw_next := lw_next w + 1, tw_strs := (tw_strs w)(lw_next w \<mapsto> msg)\<rparr>"
  have inb: "inb = retrieveAll (tc_inputBuffer conn)"
    using msg by (auto simp: retrieveAllAsString_def bind_simps)
  have "server_safe w ?w1" by (rule strings_safe) simp
  moreover have "server_safe ?w1 (put_conn c (conn\<lparr>tc_inputBuffer := inb\<rparr>) ?w1)"
    by (rule server_safe.update [where conn = conn]) (use conn inb in \<open>simp_all add: same_home_def\<close>)
  moreover note server_safe.send_R [OF send]
  moreover have "server_safe v w'"
    using strings_safe [of v "lw_next v" "(tw_strs v)(lw_next w := None)"] by (simp add: w')
  ultimately show ?thesis by (blast intro: server_safe_trans)
qed

lemma echo_callbacks_safe: "callbacks_in server_safe (echo_callbacks os)"
  by (auto simp: callbacks_in_def echo_callbacks_def split: if_splits
      dest: onConnection_safe onMessage_safe)

section \<open>Dispatching and rounds\<close>

context server_program begin

lemmas dispatch_result = cb.handleEventWithGuard_runs_due

lemmas round_result = tk.loop_iteration_result

end

text \<open>
  C14. The dispatcher, which reads the channel again before each of its four tests, is equivalent to
  running the list of callbacks that is due at its start, in the order error, read, write, close:
  no callback of the library (or of a user who keeps the contract) can destroy the channel or
  change what is due under its feet. A tied channel whose owner is gone runs nothing.
\<close>

theorem handleEvent_runs_due_callbacks:
  assumes "callbacks_ok user" and "addr_ok w" and ch: "cw_channels w c = Some ch"
  shows "handleEvent conn_alive (run_callback user os) c t w =
     (if ch_tied ch \<and> \<not> (\<exists>obj. ch_tie ch = Some obj \<and> conn_alive w obj) then Inr w
      else foldE (\<lambda>cb. run_callback user os cb t) (due_callbacks ch) w)"
  using server_program.dispatch_result
      [OF server_program.intro [OF assms(1)] assms(2) ch, of os t] ch
  by (simp add: handleEvent_def split: option.splits)

text \<open>A server world around one event loop, in the loop's thread, without a server yet.\<close>

definition lab_server :: "tcp_server option \<Rightarrow> server_world" where
  "lab_server s = lab_loops \<lparr>tw_conns = Map.empty, tw_strs = Map.empty, sw_server = s\<rparr>"

lemma lab_server_loop:
  obtains w :: server_world and lp ch where "loops_inv w" and "lw_loops w = [1 \<mapsto> lp]"
    and "cw_channels w = [2 \<mapsto> ch]" and "el_threadId lp = 7" and "io_tid w = 7"
    and "el_pendingFunctors lp = []" and "\<not> el_callingPendingFunctors lp" and "el_wakeupFd lp = 4"
    and "ch_fd ch = 4" and "addr_ok w" and "tw_conns w = Map.empty" and "sw_server w = s"
    and "lw_next w = 3"
proof -
  obtain w :: server_world and lp ch where w: "loops_inv w" "lw_loops w = [1 \<mapsto> lp]" "cw_channels w = [2 \<mapsto> ch]"
      "el_threadId lp = 7" "io_tid w = 7" "el_pendingFunctors lp = []" "\<not> el_callingPendingFunctors lp"
      "el_wakeupFd lp = 4" "ch_fd ch = 4" "lw_next w = 3"
      "loop_world.more w = \<lparr>tw_conns = Map.empty, tw_strs = Map.empty, sw_server = s\<rparr>"
    by (rule lab_loop_new [of 4 "\<lparr>tw_conns = Map.empty, tw_strs = Map.empty, sw_server = s\<rparr>"])
  have "tw_conns w = Map.empty \<and> sw_server w = s" using w(11) by (cases w) simp
  moreover have "addr_ok w" by (simp add: addr_ok_def w)
  ultimately show ?thesis using that w by blast
qed

theorem handleEvent_runs_due_callbacks_witness:
  "\<exists>(w :: server_world) ch. cw_channels w 2 = Some ch \<and> handleEvent conn_alive (run_callback (echo_callbacks (ready_os 4)) (ready_os 4)) 2 TimeStamp_default w =
     (if ch_tied ch \<and> \<not> (\<exists>obj. ch_tie ch = Some obj \<and> conn_alive w obj) then Inr w
      else foldE (\<lambda>cb. run_callback (echo_callbacks (ready_os 4)) (ready_os 4) cb TimeStamp_default) (due_callbacks ch) w)"
proof -
  obtain w :: server_world and ch where w: "addr_ok w" "cw_channels w = [2 \<mapsto> ch]"
    by (rule lab_server_loop)
  then have ch: "cw_channels w 2 = Some ch" by simp
  from handleEvent_runs_due_callbacks [OF echo_callbacks_ok w(1) ch] ch show ?thesis by blast
qed

text \<open>
  C7. A round of a loop runs every task that was queued before its tasks start (those of earlier
  rounds and of other threads first, then those the callbacks of the round queued), once each and in
  the order of queueing; a task that a task queues waits for the next round, and then the eventfd
  has been written, so that round does not wait for other events.
\<close>

theorem round_runs_queued_tasks:
  assumes user: "callbacks_ok user" and ok: "addr_ok w" and lp: "lw_loops w l = Some lp"
    and run: "loop_iteration os conn_alive (run_callback user os) (run_task user os) l w = Inr w'"
  shows "\<exists>w1 lp1 w2 new evs. lw_loops w1 l = Some lp1 \<and> el_pendingFunctors lp1 = el_pendingFunctors lp @ new \<and>
      foldE (run_task user os) (el_pendingFunctors lp1)
        (put_loop l (lp1\<lparr>el_callingPendingFunctors := True, el_pendingFunctors := []\<rparr>) w1) = Inr w2 \<and>
      pending l w' = pending l w2 \<and> io_trace w' = io_trace w1 @ evs \<and>
      (pending l w' \<noteq> [] \<longrightarrow> woken (el_wakeupFd lp) evs)"
proof -
  obtain w1 lp1 w2 lp2 evs where r: "lw_loops w1 l = Some lp1"
      "\<exists>new. el_pendingFunctors lp1 = el_pendingFunctors lp @ new"
      "foldE (run_task user os) (el_pendingFunctors lp1)
       (put_loop l (lp1\<lparr>el_callingPendingFunctors := True, el_pendingFunctors := []\<rparr>) w1) = Inr w2"
      "lw_loops w2 l = Some lp2" "w' = put_loop l (lp2\<lparr>el_callingPendingFunctors := False\<rparr>) w2"
      "io_trace w' = io_trace w1 @ evs" "pending l w' \<noteq> [] \<Longrightarrow> woken (el_wakeupFd lp) evs"
    by (rule server_program.round_result [OF server_program.intro [OF user] run ok lp
        run_callback_extends [OF user]]) (assumption | rule that; blast)+
  moreover have "pending l w' = pending l w2" using r(4,5) by (simp add: pending_def)
  ultimately show ?thesis by blast
qed

text \<open>A round in which epoll reports nothing.\<close>

lemma idle_round:
  assumes lp: "lw_loops w l = Some lp" "el_poller lp = Some p" and os: "\<And>h e n. os_wait os h e n = Inr []"
  obtains now where "loop_iteration os alive run exec l w =
      doPendingFunctors exec l (put_loop l (lp\<lparr>el_pollReturnTime := now, el_activeChannels := []\<rparr>) w)"
proof -
  let ?now = "TimeStamp_now (os_time os (io_trace w))"
  let ?lp = "lp\<lparr>el_pollReturnTime := ?now, el_activeChannels := []\<rparr>"
  have "poller_poll os KPollTimeMs p [] w = Inr (?now, [], p, w)"
    by (simp add: poller_poll_def sys_wait_def os)
  then have "loop_poll os l w = Inr (put_loop l
      (lp\<lparr>el_poller := Some p, el_pollReturnTime := ?now, el_activeChannels := []\<rparr>) w)"
    using lp by (simp add: loop_poll_def)
  also have "lp\<lparr>el_poller := Some p, el_pollReturnTime := ?now, el_activeChannels := []\<rparr> = ?lp"
    using lp(2) by (cases lp) simp
  finally show ?thesis by (intro that [of ?now]) (simp add: loop_iteration_def)
qed

lemma lab_os_idle: "os_wait (lab_os incoming n) h e k = Inr []"
  by (simp add: lab_os_def)

theorem round_runs_queued_tasks_witness:
  "\<exists>user (w :: server_world) w' lp. lw_loops w 1 = Some lp \<and> el_pendingFunctors lp = [UserTask 0, UserTask 1] \<and>
     loop_iteration (lab_os [] 8) conn_alive (run_callback user (lab_os [] 8)) (run_task user (lab_os [] 8)) 1 w = Inr w' \<and>
     (\<exists>w1 lp1 w2 new evs. lw_loops w1 1 = Some lp1 \<and> el_pendingFunctors lp1 = [UserTask 0, UserTask 1] @ new \<and>
      foldE (run_task user (lab_os [] 8)) (el_pendingFunctors lp1)
        (put_loop 1 (lp1\<lparr>el_callingPendingFunctors := True, el_pendingFunctors := []\<rparr>) w1) = Inr w2 \<and>
      pending 1 w' = pending 1 w2 \<and> io_trace w' = io_trace w1 @ evs)"
proof -
  let ?os = "lab_os [] 8"
  let ?user = "(echo_callbacks ?os)\<lparr>on_task := (\<lambda>n w. Inr w)\<rparr> :: server_world callbacks"
  have "callbacks_ok (echo_callbacks ?os :: server_world callbacks)" by (rule echo_callbacks_ok)
  then have user: "callbacks_ok ?user" by (simp add: callbacks_in_def)
  obtain w :: server_world and lp where w: "loops_inv w" "lw_loops w = [1 \<mapsto> lp]" "addr_ok w"
    by (rule lab_server_loop)
  then obtain p where p: "el_poller lp = Some p" using loops_invD(1) [of w 1 lp] by auto
  let ?lp = "lp\<lparr>el_pendingFunctors := [UserTask 0, UserTask 1]\<rparr>"
  let ?w = "put_loop 1 ?lp w"
  have lp': "lw_loops ?w 1 = Some ?lp" by simp
  obtain now where now: "loop_iteration ?os conn_alive (run_callback ?user ?os) (run_task ?user ?os) 1 ?w =
      doPendingFunctors (run_task ?user ?os) 1
        (put_loop 1 (?lp\<lparr>el_pollReturnTime := now, el_activeChannels := []\<rparr>) ?w)"
    by (rule idle_round [OF lp']) (auto simp: p lab_os_idle)
  then obtain w' where w': "loop_iteration ?os conn_alive (run_callback ?user ?os) (run_task ?user ?os) 1 ?w = Inr w'"
    by (simp add: doPendingFunctors_def)
  have "addr_ok ?w" by (rule addr_ok_put_loop) (simp_all add: w)
  note r = round_runs_queued_tasks [OF user this lp' w']
  show ?thesis
  proof (rule exI [where x = ?user], rule exI [where x = ?w], rule exI [where x = w'],
      rule exI [where x = ?lp], intro conjI)
    show "lw_loops ?w 1 = Some ?lp" by (rule lp')
    show "el_pendingFunctors ?lp = [UserTask 0, UserTask 1]" by simp
  qed (rule w', use r in force)
qed

end
