(* ===== verification/Connection_Properties.thy ===== *)
theory Connection_Properties
  imports Connection_Behaviour
begin

text \<open>
  The properties of a connection: what sending, reading, writing, shutting down and closing do, and
  the places where the code leaves the defined behaviour of C++.
\<close>

section \<open>A new connection\<close>

lemma conn_ok_new:
  assumes inv: "loops_inv w" and free: "cw_channels w (lw_next w + 1) = None"
    and lp: "lw_loops w l = Some lp" and fd: "fresh_fd sockfd w" "el_wakeupFd lp \<noteq> sockfd"
  obtains w' conn ch where "TcpConnection_new os l name sockfd la pa w = Inr (lw_next w, w')"
    and "conn_ok w' (lw_next w) conn ch" and "tc_state conn = kConnecting"
    and "tc_loop conn = l" and "tc_name conn = name" and "tc_socket conn = sockfd"
    and "tc_channel conn = lw_next w + 1"
    and "contents (tc_inputBuffer conn) = []" and "contents (tc_outputBuffer conn) = []"
    and "length (buf_data (tc_inputBuffer conn)) = 1032" and "length (buf_data (tc_outputBuffer conn)) = 1032"
    and "ch_index ch = KNew" and "\<not> isWriting ch" and "\<not> isReading ch"
    and "lw_loops w' = lw_loops w" and "tw_strs w' = tw_strs w" and "io_tid w' = io_tid w"
    and "\<exists>r. io_trace w' = io_trace w @ [Did (SetSockOpt sockfd SO_KEEPALIVE 1) r]"
proof -
  obtain w' conn ch where v: "TcpConnection_new os l name sockfd la pa w = Inr (lw_next w, w')"
      "tw_conns w' = (tw_conns w)(lw_next w \<mapsto> conn)" "tc_state conn = kConnecting"
      "tc_loop conn = l" "tc_name conn = name" "tc_socket conn = sockfd" "tc_channel conn = lw_next w + 1"
      "buf_inv (tc_inputBuffer conn)" "contents (tc_inputBuffer conn) = []"
      "buf_inv (tc_outputBuffer conn)" "contents (tc_outputBuffer conn) = []"
      "length (buf_data (tc_inputBuffer conn)) = 1032" "length (buf_data (tc_outputBuffer conn)) = 1032"
      "cw_channels w' = (cw_channels w)(lw_next w + 1 \<mapsto> ch)"
      "ch_loop ch = l" "ch_fd ch = sockfd" "ch_index ch = KNew" "ch_events ch = 0"
      "lw_loops w' = lw_loops w" "tw_strs w' = tw_strs w" "io_tid w' = io_tid w"
      "\<exists>r. io_trace w' = io_trace w @ [Did (SetSockOpt sockfd SO_KEEPALIVE 1) r]"
    by (rule TcpConnection_new_result [of os l name sockfd la pa w])
  from v(22) obtain r where tr: "io_trace w' = io_trace w @ [Did (SetSockOpt sockfd SO_KEEPALIVE 1) r]" ..
  have "loops_inv w'"
    by (rule loops_inv_new_channel [OF inv free _ v(14) v(17) _ _ tr])
      (use lp fd(1) v(15,16,19) in \<open>auto simp: same_pollers_def fresh_fd_def\<close>)
  moreover have masks: "\<not> isWriting ch" "\<not> isReading ch" using v(18) by (simp_all add: isWriting_def isReading_def KNoneEvent_def)
  ultimately have "conn_ok w' (lw_next w) conn ch"
    using v lp fd(2) by (simp add: conn_ok_def)
  then show ?thesis using that [OF v(1)] v masks by blast
qed

text \<open>A connection in a world of its own, with some strings that a caller may send.\<close>

definition lab_strings :: "(str_ptr \<rightharpoonup> string) \<Rightarrow> conn_world" where
  "lab_strings strs = lab_loops (conn_world.fields Map.empty strs)"

definition lab_addr :: sockaddr_in where
  "lab_addr = \<lparr>sin_family = AF_INET, sin_port = 0, sin_addr = 0\<rparr>"

lemma lab_connection:
  obtains w conn ch where
    "\<exists>w0. EventLoop_new False (ready_os 4) (lab_strings strs) = Inr (1, w0) \<and>
       TcpConnection_new (ready_os 4) 1 ''conn'' 9 lab_addr lab_addr w0 = Inr (3, w)"
    and "conn_ok w 3 conn ch" and "tc_state conn = kConnecting" and "tc_loop conn = 1" and "tc_socket conn = 9" and "tc_channel conn = 4"
    and "contents (tc_inputBuffer conn) = []" and "contents (tc_outputBuffer conn) = []"
    and "length (buf_data (tc_inputBuffer conn)) = 1032" and "length (buf_data (tc_outputBuffer conn)) = 1032"
    and "ch_index ch = KNew" and "\<not> isWriting ch" and "tw_strs w = strs" and "io_tid w = 7"
    and "\<exists>lp. lw_loops w 1 = Some lp \<and> el_threadId lp = 7 \<and> el_pendingFunctors lp = [] \<and>
      \<not> el_callingPendingFunctors lp"
proof -
  obtain w0 lp ch0 where w0: "EventLoop_new False (ready_os 4) (lab_strings strs) = Inr (1, w0)" "loops_inv w0"
      "lw_loops w0 = [1 \<mapsto> lp]" "cw_channels w0 = [2 \<mapsto> ch0]" "el_threadId lp = 7" "io_tid w0 = 7"
      "el_pendingFunctors lp = []" "\<not> el_callingPendingFunctors lp" "el_wakeupFd lp = 4" "ch_fd ch0 = 4"
      "lw_next w0 = 3" "loop_world.more w0 = conn_world.fields Map.empty strs"
    by (rule lab_loop_new [of 4 "conn_world.fields Map.empty strs", folded lab_strings_def])
  have strs: "tw_strs w0 = strs"
    using w0(12) conn_more [of "lab_strings strs" w0]
    by (cases w0) (simp add: conn_world.defs)
  have free: "cw_channels w0 (lw_next w0 + 1) = None" and l: "lw_loops w0 1 = Some lp"
    and fd: "fresh_fd 9 w0" "el_wakeupFd lp \<noteq> 9"
    using w0 by (simp_all add: fresh_fd_def)
  obtain w conn ch where "TcpConnection_new (ready_os 4) 1 ''conn'' 9 lab_addr lab_addr w0 = Inr (lw_next w0, w)"
      "conn_ok w (lw_next w0) conn ch" "tc_state conn = kConnecting" "tc_loop conn = 1" "tc_socket conn = 9" "tc_channel conn = lw_next w0 + 1"
      "contents (tc_inputBuffer conn) = []" "contents (tc_outputBuffer conn) = []"
      "length (buf_data (tc_inputBuffer conn)) = 1032" "length (buf_data (tc_outputBuffer conn)) = 1032"
      "ch_index ch = KNew" "\<not> isWriting ch" "lw_loops w = lw_loops w0" "tw_strs w = tw_strs w0"
      "io_tid w = io_tid w0"
    by (rule conn_ok_new [OF w0(2) free l fd])
  then show ?thesis using that [of w conn ch] w0 strs l by simp
qed

section \<open>Sending\<close>

text \<open>
  C19. Sending in the loop, with nothing pending, delivers the bytes in order and none twice: what the
  kernel took followed by what waits in the output buffer is extended by exactly the string,
  however many bytes the kernel accepts; the channel asks for write events exactly when something
  is left.
\<close>

theorem sendInLoop_delivers:
  assumes "conn_ok w c conn ch" and "contents (tc_outputBuffer conn) = []"
    and "tw_strs w data = Some str" and "str \<noteq> []"
    and "unat (buf_writerIndex (tc_outputBuffer conn)) + length str \<le> vec_max"
    and "os_write os (io_trace w) (tc_socket conn) str = Inr n" and "0 < n"
  shows "\<exists>w' conn' ch'. sendInLoop os c data (of_nat (length str)) w = Inr w' \<and>
      conn_ok w' c conn' ch' \<and> out_stream w' conn' = out_stream w conn @ str \<and>
      contents (tc_outputBuffer conn') = drop n str \<and> (isWriting ch' \<longleftrightarrow> n < length str) \<and>
      in_stream w' conn' = in_stream w conn"
proof -
  obtain w' outb ch' where w': "sendInLoop os c data (of_nat (length str)) w = Inr w'"
      "tw_conns w' = (tw_conns w)(c \<mapsto> conn\<lparr>tc_outputBuffer := outb\<rparr>)"
      "conn_ok w' c (conn\<lparr>tc_outputBuffer := outb\<rparr>) ch'"
      "contents outb = drop n str" "isWriting ch' \<longleftrightarrow> n < length str"
      "sent_bytes (tc_socket conn) (io_trace w') = sent_bytes (tc_socket conn) (io_trace w) @ take n str"
      "in_stream w' conn = in_stream w conn"
    by (rule sendInLoop_result [OF assms])
  then show ?thesis
    by (intro exI [of _ w'] exI [of _ "conn\<lparr>tc_outputBuffer := outb\<rparr>"] exI [of _ ch'])
      (simp add: out_stream_def in_stream_def assms(2))
qed

lemma lab_writer_index:
  "buf_inv b \<Longrightarrow> length (buf_data b) = 1032 \<Longrightarrow> unat (buf_writerIndex b) + n \<le> vec_max \<or> 2000 < n"
  by (auto simp: buf_inv_def vec_max_def)

theorem sendInLoop_delivers_witness:
  "\<exists>(w :: conn_world) conn w' conn' ch'. tw_strs w 90 = Some ''hello world'' \<and>
     sendInLoop (ready_os 4) 3 90 11 w = Inr w' \<and> conn_ok w' 3 conn' ch' \<and>
     out_stream w' conn' = out_stream w conn @ ''hello world'' \<and>
     contents (tc_outputBuffer conn') = ''rld'' \<and> isWriting ch'"
proof -
  obtain w :: conn_world and conn ch where w: "conn_ok w 3 conn ch" "contents (tc_outputBuffer conn) = []"
      "length (buf_data (tc_outputBuffer conn)) = 1032" "tw_strs w = [90 \<mapsto> ''hello world'']"
    by (rule lab_connection [of "[90 \<mapsto> ''hello world'']"])
  have s: "tw_strs w 90 = Some ''hello world''" using w(4) by simp
  have room: "unat (buf_writerIndex (tc_outputBuffer conn)) + length ''hello world'' \<le> vec_max"
    using lab_writer_index [OF conn_okD(7) [OF w(1)] w(3), of "length ''hello world''"] by simp
  have took: "os_write (ready_os 4) (io_trace w) (tc_socket conn) ''hello world'' = Inr 8"
    by (simp add: ready_os_def lab_os_def)
  from sendInLoop_delivers [OF w(1,2) s _ room took] s show ?thesis by force
qed

text \<open>The queueing that may come before the bytes are looked at always succeeds.\<close>

lemma send_later_stops:
  assumes ok: "conn_ok w c conn ch"
    and stop: "bindE (derefE (tw_strs w) data) (\<lambda>str. data_from str nwrote) = Inl e"
  shows "send_later os c data nwrote rem w = Inl e"
proof -
  obtain lp where lp: "lw_loops w (tc_loop conn) = Some lp" by (rule conn_ok_loop [OF ok])
  have conn: "tw_conns w c = Some conn" using conn_okD [OF ok] by simp
  let ?high = "\<lambda>b n. if b then queueInLLoop os (tc_loop conn) n w else Inr w"
  have stop': "bindE (derefE (tw_strs w) data) (\<lambda>str. bindE (data_from str nwrote) (f str)) = Inl e"
    for f :: "string \<Rightarrow> char list \<Rightarrow> cpp_error + 'a conn_world_scheme"
    using stop by (cases "derefE (tw_strs w) data") auto
  have queue: "\<exists>v. queueInLLoop os (tc_loop conn) t w = Inr v \<and> tw_strs v = tw_strs w" for t
    by (rule queueInLLoop_result [OF lp, of os t]) (auto simp: conn_more)
  show ?thesis
  proof (cases "\<exists>f. tc_highWaterMarkCallback conn = Some f \<and>
      readableBytes (tc_outputBuffer conn) + rem \<ge> tc_highWaterMask conn \<and>
      readableBytes (tc_outputBuffer conn) < tc_highWaterMask conn")
    case True
    then obtain f where f: "tc_highWaterMarkCallback conn = Some f" by blast
    obtain v where "queueInLLoop os (tc_loop conn)
        (HighWaterMark f c (readableBytes (tc_outputBuffer conn) + rem)) w = Inr v" "tw_strs v = tw_strs w"
      using queue by blast
    with True f conn stop' show ?thesis by (simp add: send_later_def Let_def)
  next
    case False
    then show ?thesis
      using conn stop' by (auto simp: send_later_def Let_def split: option.splits)
  qed
qed

text \<open>
  C29. A \<open>write\<close> that fails, whatever the error number (a full socket, \<open>EWOULDBLOCK\<close>, included), is
  taken for a success of -1 bytes, because the result is only compared with zero: \<open>remaining\<close>
  becomes \<open>len + 1\<close> and the copy into the output buffer starts one byte before the string.
\<close>

theorem sendInLoop_write_error:
  assumes ok: "conn_ok w c conn ch" and idle: "contents (tc_outputBuffer conn) = []"
    and str: "tw_strs w data = Some str" and len: "length str \<le> vec_max"
    and fail: "os_write os (io_trace w) (tc_socket conn) str = Inl e"
  shows "sendInLoop os c data (of_nat (length str)) w = Inl OutOfBounds"
proof -
  note okD = conn_okD [OF ok]
  define w0 where "w0 = (if tc_state conn = kDisconnected
    then note_log ERROR ''disconnected, give up writing'' w else w)"
  have w0: "tw_conns w0 = tw_conns w" "cw_channels w0 = cw_channels w" "lw_loops w0 = lw_loops w"
      "tw_strs w0 = tw_strs w" "io_trace w0 = io_trace w" "io_tid w0 = io_tid w"
    by (simp_all add: w0_def)
  let ?len = "of_nat (length str) :: size_t"
  have un: "unat ?len = length str" using len by (intro unat_of_nat_small) (simp add: vec_max_def)
  have idle': "\<not> isWriting ch" "readableBytes (tc_outputBuffer conn) = 0"
    using okD(8) idle no_pending [OF okD(7)] by auto
  define w1 where "w1 = note_event (WriteFailed (tc_socket conn) e) (w0\<lparr>io_errno := e\<rparr>)"
  have wr: "sys_write os (ch_fd ch) str w0 = (-1, w1)"
    using fail by (simp add: sys_write_def w1_def w0 okD)
  have ne: "?len + 1 \<noteq> 0"
  proof -
    have "unat (?len + 1) = length str + 1"
      using un len by (simp add: unat_add_small vec_max_def)
    then show ?thesis by (metis add_is_0 one_neq_zero unat_0)
  qed
  have direct: "send_directly os c data ?len w0 = Inr (Some (-1), ?len + 1, False, w1)"
    using okD str idle' un wr ne by (simp add: send_directly_def w0 c_array_def)
  have "loops_inv w1"
    by (rule loops_inv_io [OF okD(1), where evs = "[WriteFailed (tc_socket conn) e]"])
      (simp_all add: w1_def w0)
  then have ok1: "conn_ok w1 c conn ch" using ok by (simp add: conn_ok_def w1_def w0)
  have "send_later os c data (Some (-1)) (?len + 1) w1 = Inl OutOfBounds"
    by (rule send_later_stops [OF ok1]) (use str in \<open>simp add: w1_def w0 data_from_def\<close>)
  then show ?thesis
    using okD(2) direct ne by (simp add: sendInLoop_def Let_def word_neq_0_conv flip: w0_def)
qed

theorem sendInLoop_write_error_witness:
  "\<exists>w :: conn_world. tw_strs w 90 = Some ''hello'' \<and>
     sendInLoop ((ready_os 4)\<lparr>os_write := \<lambda>h f bs. Inl EWOULDBLOCK\<rparr>) 3 90 5 w = Inl OutOfBounds"
proof -
  obtain w :: conn_world and conn ch where w: "conn_ok w 3 conn ch" "contents (tc_outputBuffer conn) = []"
      "tw_strs w = [90 \<mapsto> ''hello'']"
    by (rule lab_connection [of "[90 \<mapsto> ''hello'']"])
  then have s: "tw_strs w 90 = Some ''hello''" by simp
  from sendInLoop_write_error [OF w(1,2) s, of "(ready_os 4)\<lparr>os_write := \<lambda>h f bs. Inl EWOULDBLOCK\<rparr>"] s
  show ?thesis by (auto simp: vec_max_def)
qed

text \<open>
  C30. A send while earlier bytes still wait skips the direct \<open>write\<close>, so the local variable
  \<open>nwrote\<close> never gets a value, and the address \<open>data + nwrote\<close> is computed from it.
\<close>

theorem sendInLoop_while_pending:
  assumes ok: "conn_ok w c conn ch" and busy: "contents (tc_outputBuffer conn) \<noteq> []"
    and str: "tw_strs w data = Some str" and len: "0 < len"
  shows "sendInLoop os c data len w = Inl UninitialisedRead"
proof -
  note okD = conn_okD [OF ok]
  define w0 where "w0 = (if tc_state conn = kDisconnected
    then note_log ERROR ''disconnected, give up writing'' w else w)"
  have w0: "tw_conns w0 = tw_conns w" "cw_channels w0 = cw_channels w" "tw_strs w0 = tw_strs w"
    by (simp_all add: w0_def)
  have "readableBytes (tc_outputBuffer conn) \<noteq> 0" using no_pending [OF okD(7)] busy by simp
  then have direct: "send_directly os c data len w0 = Inr (None, len, False, w0)"
    using okD by (simp add: send_directly_def w0)
  have "loops_inv w0"
    by (rule loops_inv_io [OF okD(1), where evs = "[]"]) (simp_all add: w0_def)
  then have ok0: "conn_ok w0 c conn ch" using ok by (simp add: conn_ok_def w0_def)
  have "send_later os c data None len w0 = Inl UninitialisedRead"
    by (rule send_later_stops [OF ok0]) (use str in \<open>simp add: w0 data_from_def\<close>)
  then show ?thesis
    using okD(2) direct len by (simp add: sendInLoop_def Let_def flip: w0_def)
qed

theorem sendInLoop_while_pending_witness:
  "\<exists>(w :: conn_world) w'. sendInLoop (ready_os 4) 3 90 11 w = Inr w' \<and>
     sendInLoop (ready_os 4) 3 90 11 w' = Inl UninitialisedRead"
proof -
  obtain w :: conn_world and conn ch where w: "conn_ok w 3 conn ch" "contents (tc_outputBuffer conn) = []"
      "length (buf_data (tc_outputBuffer conn)) = 1032" "tw_strs w = [90 \<mapsto> ''hello world'']"
    by (rule lab_connection [of "[90 \<mapsto> ''hello world'']"])
  have s: "tw_strs w 90 = Some ''hello world''" using w(4) by simp
  have room: "unat (buf_writerIndex (tc_outputBuffer conn)) + length ''hello world'' \<le> vec_max"
    using lab_writer_index [OF conn_okD(7) [OF w(1)] w(3), of "length ''hello world''"] by simp
  have took: "os_write (ready_os 4) (io_trace w) (tc_socket conn) ''hello world'' = Inr 8"
    by (simp add: ready_os_def lab_os_def)
  obtain w' outb ch' where w': "sendInLoop (ready_os 4) 3 90 (of_nat (length ''hello world'')) w = Inr w'"
      "conn_ok w' 3 (conn\<lparr>tc_outputBuffer := outb\<rparr>) ch'" "contents outb = drop 8 ''hello world''"
      "tw_strs w' = tw_strs w"
    by (rule sendInLoop_result [OF w(1,2) s _ room took]) simp_all
  have "sendInLoop (ready_os 4) 3 90 11 w' = Inl UninitialisedRead"
    by (rule sendInLoop_while_pending [OF w'(2)]) (simp_all add: w' s)
  with w'(1) show ?thesis by auto
qed

lemma conn_ok_log:
  assumes "conn_ok w c conn ch"
  shows "conn_ok (note_log lv m w) c conn ch"
proof -
  have "loops_inv (note_log lv m w)"
    by (rule loops_inv_io [OF conn_okD(1) [OF assms], where evs = "[]"]) simp_all
  then show ?thesis using assms by (simp add: conn_ok_def)
qed

text \<open>A change of the state alone, and of the tie of the channel.\<close>

lemma loops_inv_put_conn: "loops_inv w \<Longrightarrow> loops_inv (put_conn c conn w)"
  by (rule loops_inv_io [where evs = "[]"]) simp_all

lemma setState_result:
  assumes ok: "conn_ok w c conn ch"
    and writing: "st = kConnected \<Longrightarrow> contents (tc_outputBuffer conn) \<noteq> [] \<Longrightarrow> isWriting ch"
  shows "setState st c w = Inr (put_conn c (conn\<lparr>tc_state := st\<rparr>) w)"
    and "conn_ok (put_conn c (conn\<lparr>tc_state := st\<rparr>) w) c (conn\<lparr>tc_state := st\<rparr>) ch"
proof -
  show "setState st c w = Inr (put_conn c (conn\<lparr>tc_state := st\<rparr>) w)"
    using conn_okD(2) [OF ok] by (simp add: setState_def)
  show "conn_ok (put_conn c (conn\<lparr>tc_state := st\<rparr>) w) c (conn\<lparr>tc_state := st\<rparr>) ch"
    using ok writing loops_inv_put_conn [OF conn_okD(1) [OF ok]] by (simp add: conn_ok_def)
qed

text \<open>A change of the mask keeps the order when it keeps the promise about write events.\<close>

lemma change_events_conn:
  assumes ok: "conn_ok w c conn ch" and change: "change ch = ch\<lparr>ch_events := ev\<rparr>"
    and writing: "isWriting (change ch) \<Longrightarrow> contents (tc_outputBuffer conn) \<noteq> []"
      "tc_state conn = kConnected \<Longrightarrow> contents (tc_outputBuffer conn) \<noteq> [] \<Longrightarrow> isWriting (change ch)"
  obtains w' e r where "change_events change os (tc_channel conn) w = Inr w'"
    and "conn_ok w' c conn (set_index (updated_index (change ch)) (change ch))"
    and "tw_conns w' = tw_conns w" and "tw_strs w' = tw_strs w" and "io_tid w' = io_tid w"
    and "cw_channels w' = (cw_channels w)(tc_channel conn \<mapsto> set_index (updated_index (change ch)) (change ch))"
    and "io_trace w' = io_trace w @ [Did (EpollCtl e (update_request (change ch)) (tc_socket conn) ev
      (tc_channel conn)) r]"
    and "\<forall>l. map_option el_pendingFunctors (lw_loops w' l) = map_option el_pendingFunctors (lw_loops w l)"
    and "\<forall>l. map_option el_threadId (lw_loops w' l) = map_option el_threadId (lw_loops w l)"
    and "lw_next w' = lw_next w" and "conn_world.more w' = conn_world.more w"
    and "\<exists>lp q. lw_loops w (tc_loop conn) = Some lp \<and>
      lw_loops w' = (lw_loops w)(tc_loop conn \<mapsto> lp\<lparr>el_poller := q\<rparr>)"
proof -
  note okD = conn_okD [OF ok]
  obtain lp where lp: "lw_loops w (tc_loop conn) = Some lp" by (rule conn_ok_loop [OF ok])
  obtain w' lp' q e r where w': "change_events change os (tc_channel conn) w = Inr w'" "loops_inv w'"
      "cw_channels w' = (cw_channels w)(tc_channel conn \<mapsto> set_index (updated_index (change ch)) (change ch))"
      "lw_loops w (ch_loop ch) = Some lp'"
      "lw_loops w' = (lw_loops w)(ch_loop ch \<mapsto> lp'\<lparr>el_poller := q\<rparr>)"
      "lw_next w' = lw_next w" "loop_world.more w' = loop_world.more w" "io_tid w' = io_tid w"
      "io_trace w' = io_trace w @ [Did (EpollCtl e (update_request (change ch)) (ch_fd ch) ev (tc_channel conn)) r]"
    by (rule change_events_result [where change = change, OF okD(1,3) change, of os])
  have same: "ch_loop (change ch) = ch_loop ch" "ch_fd (change ch) = ch_fd ch" by (simp_all add: change)
  have more: "tw_conns w' = tw_conns w" "tw_strs w' = tw_strs w" using w'(7) by (simp_all add: conn_more)
  have "conn_ok w' c conn (set_index (updated_index (change ch)) (change ch))"
    using okD w' same more writing by (auto simp: conn_ok_def)
  then show ?thesis
    by (rule that [OF w'(1) _ more w'(8,3)]) (use w' okD(4,5) in \<open>auto simp: conn_more\<close>)
qed

lemma conn_ok_frame:
  fixes w w' :: "'a conn_world_scheme"
  assumes "conn_ok w c conn ch" and "cw_channels w' = cw_channels w" and "lw_loops w' = lw_loops w"
    and "tw_conns w' = tw_conns w" and "io_trace w' = io_trace w"
  shows "conn_ok w' c conn ch"
proof -
  have "loops_inv w'"
    by (rule loops_inv_io [OF conn_okD(1) [OF assms(1)], where evs = "[]"]) (simp_all add: assms)
  then show ?thesis using assms by (simp add: conn_ok_def)
qed

lemma lab_connected:
  obtains w :: conn_world and conn ch where "conn_ok w 3 conn ch" and "tc_state conn = kConnected"
    and "tc_connectionCallback conn = Some (UserFn 0)" and "tc_messageCallback conn = Some (UserFn 1)"
    and "tc_closeCallback conn = Some ServerRemoveConnection"
    and "tc_loop conn = 1" and "tc_socket conn = 9"
    and "contents (tc_inputBuffer conn) = []" and "contents (tc_outputBuffer conn) = []"
    and "length (buf_data (tc_inputBuffer conn)) = 1032" and "length (buf_data (tc_outputBuffer conn)) = 1032"
    and "ch_index ch = KNew" and "\<not> isWriting ch" and "tw_strs w = strs" and "io_tid w = t"
    and "\<exists>lp. lw_loops w 1 = Some lp \<and> el_threadId lp = 7 \<and> el_pendingFunctors lp = [] \<and>
      \<not> el_callingPendingFunctors lp"
proof -
  obtain w :: conn_world and conn ch where w: "conn_ok w 3 conn ch" "tc_loop conn = 1" "tc_socket conn = 9"
    "contents (tc_inputBuffer conn) = []" "contents (tc_outputBuffer conn) = []"
    "length (buf_data (tc_inputBuffer conn)) = 1032" "length (buf_data (tc_outputBuffer conn)) = 1032"
    "ch_index ch = KNew" "\<not> isWriting ch" "tw_strs w = strs"
    "\<exists>lp. lw_loops w 1 = Some lp \<and> el_threadId lp = 7 \<and> el_pendingFunctors lp = [] \<and>
      \<not> el_callingPendingFunctors lp"
    by (rule lab_connection [of strs])
  let ?conn = "conn\<lparr>tc_state := kConnected, tc_connectionCallback := Some (UserFn 0),
    tc_messageCallback := Some (UserFn 1), tc_closeCallback := Some ServerRemoveConnection\<rparr>"
  let ?w = "(put_conn 3 ?conn w)\<lparr>io_tid := t\<rparr>"
  have "conn_ok (put_conn 3 ?conn w) 3 ?conn ch"
    using w(1,5) loops_inv_put_conn [OF conn_okD(1) [OF w(1)]] by (simp add: conn_ok_def)
  then have "conn_ok ?w 3 ?conn ch" by (rule conn_ok_frame) simp_all
  then show ?thesis by (rule that) (use w in simp_all)
qed

text \<open>
  C27. A send from another thread queues the address of the caller's string, not its bytes. The call
  returns with one task more in the queue of the loop and the loop woken up; when the task runs
  after the string is gone, it reads freed memory.
\<close>

theorem send_cross_thread:
  assumes ok: "conn_ok w c conn ch" and state: "tc_state conn = kConnected"
    and lp: "lw_loops w (tc_loop conn) = Some lp" and other: "el_threadId lp \<noteq> io_tid w"
    and str: "tw_strs w data = Some str" and len: "str \<noteq> []" "length str \<le> vec_max"
  shows "\<exists>w' evs. send os data c w = Inr w' \<and>
      lw_loops w' = (lw_loops w)(tc_loop conn \<mapsto> lp\<lparr>el_pendingFunctors :=
        el_pendingFunctors lp @ [SendInLoop c data (of_nat (length str))]\<rparr>) \<and>
      io_trace w' = io_trace w @ evs \<and> evs \<noteq> [] \<and> wakeup_events (el_wakeupFd lp) evs \<and>
      (\<forall>(v :: 'a conn_world_scheme) conn' ch'. conn_ok v c conn' ch' \<and> tw_strs v data = None \<longrightarrow>
         sendInLoop os c data (of_nat (length str)) v = Inl UseAfterFree)"
proof -
  note okD = conn_okD [OF ok]
  let ?t = "SendInLoop c data (of_nat (length str))"
  have un: "unat (of_nat (length str) :: size_t) = length str"
    using len(2) by (intro unat_of_nat_small) (simp add: vec_max_def)
  obtain w' evs where q: "queueInLLoop os (tc_loop conn) ?t w = Inr w'"
      "lw_loops w' = (lw_loops w)(tc_loop conn \<mapsto> lp\<lparr>el_pendingFunctors := el_pendingFunctors lp @ [?t]\<rparr>)"
      "io_trace w' = io_trace w @ evs" "wakeup_events (el_wakeupFd lp) evs"
      "evs \<noteq> []"
    by (rule queueInLLoop_result [OF lp, of os ?t]) (use that other in blast)
  have "send os data c w = Inr w'"
    using okD(2) state lp other str q(1) by (simp add: send_def Let_def isInLoopThread_def runInLoop_def)
  moreover have "sendInLoop os c data (of_nat (length str)) v = Inl UseAfterFree"
    if v: "conn_ok v c conn' ch'" and gone: "tw_strs v data = None"
    for v :: "'a conn_world_scheme" and conn' ch'
  proof -
    have conn': "tw_conns v c = Some conn'" "cw_channels v (tc_channel conn') = Some ch'"
      using conn_okD [OF v] by simp_all
    define u where "u = (if tc_state conn' = kDisconnected
      then note_log ERROR ''disconnected, give up writing'' v else v)"
    have u: "tw_conns u = tw_conns v" "cw_channels u = cw_channels v" "tw_strs u = tw_strs v"
      by (simp_all add: u_def)
    have ok_u: "conn_ok u c conn' ch'" using v by (simp add: u_def conn_ok_log)
    have pos: "(0 :: size_t) < of_nat (length str)" using un len(1) by (simp add: word_less_nat_alt)
    show ?thesis
    proof (cases "\<not> isWriting ch' \<and> readableBytes (tc_outputBuffer conn') = 0")
      case True
      then have "send_directly os c data (of_nat (length str)) u = Inl UseAfterFree"
        using conn' gone by (simp add: send_directly_def u)
      then show ?thesis using conn' by (simp add: sendInLoop_def Let_def flip: u_def)
    next
      case False
      then have "send_directly os c data (of_nat (length str)) u = Inr (None, of_nat (length str), False, u)"
        using conn' by (auto simp: send_directly_def u)
      moreover have "send_later os c data None (of_nat (length str)) u = Inl UseAfterFree"
        by (rule send_later_stops [OF ok_u]) (simp add: u gone)
      ultimately show ?thesis using conn' pos by (simp add: sendInLoop_def Let_def flip: u_def)
    qed
  qed
  ultimately show ?thesis using q other by blast
qed

theorem send_cross_thread_witness:
  "\<exists>(w :: conn_world) w'. io_tid w = 8 \<and> send (ready_os 4) 90 3 w = Inr w' \<and>
     pending 1 w' = [SendInLoop 3 90 5]"
proof -
  obtain w :: conn_world and conn ch where w: "conn_ok w 3 conn ch" "tc_state conn = kConnected"
      "tc_loop conn = 1" "tw_strs w = [90 \<mapsto> ''hello'']" "io_tid w = 8"
      "\<exists>lp. lw_loops w 1 = Some lp \<and> el_threadId lp = 7 \<and> el_pendingFunctors lp = [] \<and>
        \<not> el_callingPendingFunctors lp"
    by (rule lab_connected [of "[90 \<mapsto> ''hello'']" 8])
  then obtain lp where lp: "lw_loops w (tc_loop conn) = Some lp" "el_threadId lp \<noteq> io_tid w"
      "el_pendingFunctors lp = []" by auto
  have "tw_strs w 90 = Some ''hello''" using w(4) by simp
  from send_cross_thread [OF w(1,2) lp(1,2) this, of "ready_os 4"] w lp show ?thesis
    by (auto simp: vec_max_def pending_def)
qed

end
