(* ===== verification/Connection_Lifecycle.thy ===== *)
theory Connection_Lifecycle
  imports Connection_Properties
begin

text \<open>
  The life of a connection: established, shut down, closed and taken out of its loop; and what its
  handlers do with the bytes of the stream.
\<close>

section \<open>Establishing\<close>

lemma connectEstablished_result:
  assumes ok: "conn_ok w c conn ch" and new: "contents (tc_outputBuffer conn) = []"
  shows "\<exists>w1 ch1. connectEstablished cbs os c w =
        (case tc_connectionCallback conn of None \<Rightarrow> Inl BadFunctionCall
         | Some f \<Rightarrow> on_connection cbs f c w1) \<and>
      conn_ok w1 c (conn\<lparr>tc_state := kConnected\<rparr>) ch1 \<and>
      isReading ch1 \<and> ch_index ch1 = KAdded \<and> ch_tied ch1 \<and> ch_tie ch1 = Some c"
proof -
  note okD = conn_okD [OF ok]
  let ?conn = "conn\<lparr>tc_state := kConnected\<rparr>"
  let ?w1 = "put_conn c ?conn w" and ?ch = "tie c ch"
  let ?w2 = "put_channel (tc_channel conn) ?ch ?w1"
  have st: "setState kConnected c w = Inr ?w1" "conn_ok ?w1 c ?conn ch"
    by (rule setState_result [OF ok]; simp add: new)+
  have "loops_inv ?w2"
    by (rule loops_inv_frame [where evs = "[]", OF conn_okD(1) [OF st(2)]])
      (use okD(3) in \<open>auto simp: same_pollers_def same_registrations_def registration_def tie_def\<close>)
  moreover have tied: "isWriting ?ch = isWriting ch" by (simp add: tie_def isWriting_def)
  ultimately have ok2: "conn_ok ?w2 c ?conn ?ch"
    using st(2) by (simp add: conn_ok_def tie_def)
  obtain w3 where w3: "change_events add_read os (tc_channel ?conn) ?w2 = Inr w3"
      "conn_ok w3 c ?conn (set_index (updated_index (add_read ?ch)) (add_read ?ch))"
    by (rule change_events_conn [where change = add_read and os = os, OF ok2 add_read_def])
      (use new okD(8) tied in auto)
  have "tw_conns w3 c = Some ?conn" using conn_okD(2) [OF w3(2)] .
  then have "connectEstablished cbs os c w =
      (case tc_connectionCallback conn of None \<Rightarrow> Inl BadFunctionCall | Some f \<Rightarrow> on_connection cbs f c w3)"
    using st(1) okD(3) w3(1)
    by (simp add: connectEstablished_def enableReading_def invoke_connection_def invoke_def
        split: option.splits)
  moreover have "\<not> isNoneEvent (add_read ?ch)"
    using mask_updates(1) [of ?ch] by (auto simp: isNoneEvent_def isReading_def KNoneEvent_def)
  then have "updated_index (add_read ?ch) = KAdded" by (simp add: updated_index_def)
  ultimately show ?thesis
    using w3(2) by (intro exI [of _ w3] exI [of _ "set_index (updated_index (add_read ?ch)) (add_read ?ch)"])
      (simp, simp add: set_index_def add_read_def tie_def)
qed

lemma lab_registered:
  obtains w :: conn_world and conn ch where "conn_ok w 3 conn ch" and "tc_state conn = kConnected"
    and "tc_socket conn = 9" and "ch_index ch = KAdded" and "isReading ch"
proof -
  obtain w :: conn_world and conn ch where w: "conn_ok w 3 conn ch" "contents (tc_outputBuffer conn) = []"
      "tc_socket conn = 9"
    by (rule lab_connection [of Map.empty])
  from connectEstablished_result [OF w(1,2), of undefined "ready_os 4"] obtain w1 :: conn_world and ch1 where
    "conn_ok w1 3 (conn\<lparr>tc_state := kConnected\<rparr>) ch1" "isReading ch1" "ch_index ch1 = KAdded"
    by blast
  then show ?thesis by (intro that [of w1 "conn\<lparr>tc_state := kConnected\<rparr>" ch1]) (simp_all add: w(3))
qed

text \<open>
  C23. Establishing a new connection makes it connected, ties its channel to it, registers the channel
  for reading with its loop, and only then calls the connection callback; an empty callback throws.
\<close>

theorem connectEstablished_establishes:
  assumes ok: "conn_ok w c conn ch" and new: "contents (tc_outputBuffer conn) = []"
  shows "\<exists>w1 ch1. connectEstablished cbs os c w =
        (case tc_connectionCallback conn of None \<Rightarrow> Inl BadFunctionCall
         | Some f \<Rightarrow> on_connection cbs f c w1) \<and>
      conn_ok w1 c (conn\<lparr>tc_state := kConnected\<rparr>) ch1 \<and>
      isReading ch1 \<and> ch_index ch1 = KAdded \<and> ch_tied ch1 \<and> ch_tie ch1 = Some c"
  by (rule connectEstablished_result [OF assms])

theorem connectEstablished_establishes_witness:
  "\<exists>(w :: conn_world) conn. tw_conns w 3 = Some conn \<and> (\<forall>cbs. \<exists>w1 conn1 ch1.
     connectEstablished cbs (ready_os 4) 3 w =
       (case tc_connectionCallback conn of None \<Rightarrow> Inl BadFunctionCall | Some f \<Rightarrow> on_connection cbs f 3 w1) \<and>
     conn_ok w1 3 conn1 ch1 \<and> tc_state conn1 = kConnected \<and> isReading ch1)"
proof -
  obtain w :: conn_world and conn ch where w: "conn_ok w 3 conn ch" "contents (tc_outputBuffer conn) = []"
    by (rule lab_connection [of Map.empty])
  show ?thesis
  proof (rule exI [of _ w], rule exI [of _ conn], intro conjI allI)
    show "tw_conns w 3 = Some conn" using conn_okD(2) [OF w(1)] .
    fix cbs :: "conn_world callbacks"
    from connectEstablished_establishes [OF w, of cbs "ready_os 4"]
    show "\<exists>w1 conn1 ch1. connectEstablished cbs (ready_os 4) 3 w =
       (case tc_connectionCallback conn of None \<Rightarrow> Inl BadFunctionCall | Some f \<Rightarrow> on_connection cbs f 3 w1) \<and>
     conn_ok w1 3 conn1 ch1 \<and> tc_state conn1 = kConnected \<and> isReading ch1"
      by force
  qed
qed

section \<open>Shutting down\<close>

text \<open>What \<open>shutdown\<close> does in the thread of the loop.\<close>

lemma shutdown_result:
  assumes ok: "conn_ok w c conn ch" and state: "tc_state conn = kConnected"
    and lp: "lw_loops w (tc_loop conn) = Some lp" and here: "el_threadId lp = io_tid w"
  obtains w' evs where "shutdown os c w = Inr w'"
    and "conn_ok w' c (conn\<lparr>tc_state := kDisconnected\<rparr>) ch"
    and "io_trace w' = io_trace w @ evs" and "lw_loops w' = lw_loops w" and "io_tid w' = io_tid w"
    and "if contents (tc_outputBuffer conn) \<noteq> [] then evs = []
         else \<exists>r. evs = [Did (ShutdownWr (tc_socket conn)) r]"
proof -
  let ?conn = "conn\<lparr>tc_state := kDisconnected\<rparr>"
  let ?w1 = "put_conn c ?conn w"
  note okD = conn_okD [OF ok]
  have st: "setState kDisconnected c w = Inr ?w1" "conn_ok ?w1 c ?conn ch"
    by (rule setState_result [OF ok]; simp)+
  obtain w' evs where w': "shutdownInLoop os c ?w1 = Inr w'" "cw_channels w' = cw_channels ?w1"
      "chan_world.more w' = chan_world.more ?w1" "io_tid w' = io_tid ?w1" "io_trace w' = io_trace ?w1 @ evs"
      "if isWriting ch then evs = [] else \<exists>r. evs = [Did (ShutdownWr (tc_socket ?conn)) r]"
    by (rule shutdownInLoop_result [OF conn_okD(2,3) [OF st(2)], of os])
  have more: "lw_loops w' = lw_loops w" "tw_conns w' = tw_conns ?w1"
    using w'(3) by (simp_all add: loop_more conn_more)
  have writing: "isWriting ch \<longleftrightarrow> contents (tc_outputBuffer conn) \<noteq> []"
    using okD(8,9) state by blast
  have "loops_inv w'"
    by (rule loops_inv_io [OF conn_okD(1) [OF st(2)] w'(5) _ w'(2)])
      (use w'(6) more in \<open>auto split: if_splits\<close>)
  then have "conn_ok w' c ?conn ch" using st(2) w'(2) more by (simp add: conn_ok_def)
  moreover have "shutdown os c w = Inr w'"
    using okD(2) state st(1) lp here w'(1)
    by (simp add: shutdown_def runInLoop_def isInLoopThread_def)
  ultimately show ?thesis
    by (intro that [of w' evs]) (use w' more writing in \<open>auto split: if_splits\<close>)
qed

text \<open>
  C13. Shutting down is graceful: with bytes pending, \<open>shutdown\<close> sends no FIN; the write event that
  drains the buffer then sends the FIN behind the last byte, so everything that was sent before the
  call reaches the kernel first. With nothing pending the FIN goes out at once, and a second call
  changes nothing.
\<close>

theorem shutdown_after_last_byte:
  assumes ok: "conn_ok w c conn ch" and state: "tc_state conn = kConnected"
    and lp: "lw_loops w (tc_loop conn) = Some lp" and here: "el_threadId lp = io_tid w"
  shows "\<exists>w1 evs. shutdown os c w = Inr w1 \<and> io_trace w1 = io_trace w @ evs \<and>
      shutdown os c w1 = Inr w1 \<and>
      (if contents (tc_outputBuffer conn) = [] then \<exists>r. evs = [Did (ShutdownWr (tc_socket conn)) r]
       else evs = [] \<and>
         (\<forall>n. os_write os (io_trace w) (tc_socket conn) (contents (tc_outputBuffer conn)) = Inr n \<and>
              length (contents (tc_outputBuffer conn)) \<le> n \<longrightarrow>
            (\<exists>w2 tr r evs. handleWrite os c w1 = Inr w2 \<and>
               io_trace w2 = tr @ Did (ShutdownWr (tc_socket conn)) r # evs \<and>
               sent_bytes (tc_socket conn) tr = out_stream w conn \<and>
               sent_bytes (tc_socket conn) evs = [])))"
proof -
  let ?conn = "conn\<lparr>tc_state := kDisconnected\<rparr>" and ?out = "contents (tc_outputBuffer conn)"
  obtain w1 evs where w1: "shutdown os c w = Inr w1" "conn_ok w1 c ?conn ch"
      "io_trace w1 = io_trace w @ evs" "lw_loops w1 = lw_loops w" "io_tid w1 = io_tid w"
      "if ?out \<noteq> [] then evs = [] else \<exists>r. evs = [Did (ShutdownWr (tc_socket conn)) r]"
    by (rule shutdown_result [OF assms])
  have again: "shutdown os c w1 = Inr w1"
    using conn_okD(2) [OF w1(2)] by (simp add: shutdown_def)
  have drain: "\<exists>w2 tr r evs. handleWrite os c w1 = Inr w2 \<and>
      io_trace w2 = tr @ Did (ShutdownWr (tc_socket conn)) r # evs \<and>
      sent_bytes (tc_socket conn) tr = out_stream w conn \<and> sent_bytes (tc_socket conn) evs = []"
    if ne: "?out \<noteq> []" and n: "os_write os (io_trace w) (tc_socket conn) ?out = Inr n" "length ?out \<le> n" for n
  proof -
    have tr1: "io_trace w1 = io_trace w" using w1(3,6) ne by simp
    have writing: "isWriting ch" using conn_okD(9) [OF ok] state ne by blast
    have pos: "0 < n" using n(2) ne by (cases n) auto
    have took: "os_write os (io_trace w1) (tc_socket ?conn) (contents (tc_outputBuffer ?conn)) = Inr n"
      using n(1) tr1 by simp
    obtain w2 outb ch2 es where w2: "handleWrite os c w1 = Inr w2"
        "sent_bytes (tc_socket ?conn) (io_trace w2) = sent_bytes (tc_socket ?conn) (io_trace w1) @ take n ?out"
        "io_trace w2 = io_trace w1 @ es"
        "if length (contents (tc_outputBuffer ?conn)) \<le> n \<and> tc_state ?conn = kDisconnected
         then \<exists>es' r. es = es' @ [Did (ShutdownWr (tc_socket ?conn)) r]
         else \<forall>r. Did (ShutdownWr (tc_socket ?conn)) r \<notin> set es"
      by (rule handleWrite_result [OF w1(2) writing took pos]) (use that in simp)
    from w2(4) n(2) obtain es' r where es: "es = es' @ [Did (ShutdownWr (tc_socket conn)) r]" by auto
    have "sent_bytes (tc_socket conn) (io_trace w @ es') = out_stream w conn"
      using w2(2,3) n(2) es tr1 by (simp add: out_stream_def)
    then show ?thesis using w2(1,3) es tr1 by (intro exI [of _ w2] exI [of _ "io_trace w @ es'"]) auto
  qed
  show ?thesis
    using w1(1,3,6) again drain by (intro exI [of _ w1] exI [of _ evs]) auto
qed

theorem shutdown_after_last_byte_witness:
  "\<exists>(w :: conn_world) conn w1 w2 tr r evs. contents (tc_outputBuffer conn) = ''rld'' \<and>
     shutdown (ready_os 4) 3 w = Inr w1 \<and> io_trace w1 = io_trace w \<and>
     handleWrite (ready_os 4) 3 w1 = Inr w2 \<and> io_trace w2 = tr @ Did (ShutdownWr 9) r # evs \<and>
     sent_bytes 9 tr = out_stream w conn"
proof -
  obtain w :: conn_world and conn ch where w: "conn_ok w 3 conn ch" "tc_state conn = kConnected"
      "tc_loop conn = 1" "tc_socket conn = 9" "contents (tc_outputBuffer conn) = []"
      "length (buf_data (tc_outputBuffer conn)) = 1032" "tw_strs w = [90 \<mapsto> ''hello world'']" "io_tid w = 7"
      "\<exists>lp. lw_loops w 1 = Some lp \<and> el_threadId lp = 7 \<and> el_pendingFunctors lp = [] \<and>
        \<not> el_callingPendingFunctors lp"
    by (rule lab_connected [of "[90 \<mapsto> ''hello world'']" 7])
  have s: "tw_strs w 90 = Some ''hello world''" using w(7) by simp
  have room: "unat (buf_writerIndex (tc_outputBuffer conn)) + length ''hello world'' \<le> vec_max"
    using lab_writer_index [OF conn_okD(7) [OF w(1)] w(6), of "length ''hello world''"] by simp
  have took: "os_write (ready_os 4) h f bs = Inr 8" for h f bs by (simp add: ready_os_def lab_os_def)
  obtain w' :: conn_world and outb ch' where w': "conn_ok w' 3 (conn\<lparr>tc_outputBuffer := outb\<rparr>) ch'"
      "contents outb = drop 8 ''hello world''" "io_tid w' = io_tid w"
      "\<forall>l. map_option el_threadId (lw_loops w' l) = map_option el_threadId (lw_loops w l)"
    by (rule sendInLoop_result [OF w(1,5) s _ room took]) simp_all
  let ?conn = "conn\<lparr>tc_outputBuffer := outb\<rparr>"
  obtain lp where lp: "lw_loops w' (tc_loop ?conn) = Some lp" "el_threadId lp = io_tid w'"
  proof -
    have "map_option el_threadId (lw_loops w' 1) = Some 7" using w'(4) w(9) by auto
    then show ?thesis using that w(3,8) w'(3) by auto
  qed
  have st: "tc_state ?conn = kConnected" using w(2) by simp
  from shutdown_after_last_byte [OF w'(1) st lp, of "ready_os 4"]
  obtain w1 evs where w1: "shutdown (ready_os 4) 3 w' = Inr w1" "io_trace w1 = io_trace w' @ evs"
      "evs = []" "\<exists>w2 tr r es. handleWrite (ready_os 4) 3 w1 = Inr w2 \<and>
         io_trace w2 = tr @ Did (ShutdownWr 9) r # es \<and> sent_bytes 9 tr = out_stream w' ?conn"
    using took by (force simp: w'(2) w(4))
  then obtain w2 tr r es where "handleWrite (ready_os 4) 3 w1 = Inr w2"
      "io_trace w2 = tr @ Did (ShutdownWr 9) r # es" "sent_bytes 9 tr = out_stream w' ?conn"
    by blast
  then show ?thesis
    using w1 w'(2) by (intro exI [of _ w'] exI [of _ ?conn] exI [of _ w1] exI [of _ w2] exI [of _ tr]) auto
qed

section \<open>Reading\<close>

definition read_room :: "buffer \<Rightarrow> nat" where
  "read_room b = (if writableBytes b < extrabuf_size then unat (writableBytes b) + unat extrabuf_size
     else unat (writableBytes b))"

lemma conn_ok_input:
  assumes ok: "conn_ok w c conn ch" and inb: "buf_inv inb"
    and v: "v = note_event (Received f got) w"
  shows "conn_ok (put_conn c (conn\<lparr>tc_inputBuffer := inb\<rparr>) v) c (conn\<lparr>tc_inputBuffer := inb\<rparr>) ch"
proof -
  have "loops_inv (put_conn c (conn\<lparr>tc_inputBuffer := inb\<rparr>) v)"
    by (rule loops_inv_io [OF conn_okD(1) [OF ok], where evs = "[Received f got]"]) (simp_all add: v)
  then show ?thesis using ok inb by (simp add: conn_ok_def v)
qed

lemma handleError_conn:
  assumes ok: "conn_ok w c conn ch"
  obtains w' m where "handleError os c w = Inr w'" and "conn_ok w' c conn ch"
    and "io_trace w' = io_trace w" and "io_log w' = io_log w @ [(ERROR, m)]"
proof (cases "os_sockerror os (io_trace w) (tc_socket conn)")
  case (Inl e)
  let ?w = "note_log ERROR (error_text (tc_name conn) e) (w\<lparr>io_errno := e\<rparr>)"
  have "handleError os c w = Inr ?w"
    using Inl conn_okD(2,3,5) [OF ok] by (simp add: handleError_def)
  moreover have "conn_ok ?w c conn ch" by (rule conn_ok_frame [OF ok]) simp_all
  ultimately show ?thesis by (rule that) simp_all
next
  case (Inr e)
  let ?w = "note_log ERROR (error_text (tc_name conn) e) w"
  have "handleError os c w = Inr ?w"
    using Inr conn_okD(2,3,5) [OF ok] by (simp add: handleError_def)
  then show ?thesis by (rule that) (simp_all add: conn_ok_log [OF ok])
qed

text \<open>What the kernel delivers goes to the end of the input buffer before anything is called.\<close>

lemma handleRead_delivery:
  assumes ok: "conn_ok w c conn ch"
    and small: "length (buf_data (tc_inputBuffer conn)) + 65536 \<le> vec_max"
    and delivered: "os_read os (io_trace w) (tc_socket conn) (read_room (tc_inputBuffer conn)) = Inr bytes"
    and got: "got = take (read_room (tc_inputBuffer conn)) bytes"
  obtains inb where "contents inb = contents (tc_inputBuffer conn) @ got"
    and "conn_ok (put_conn c (conn\<lparr>tc_inputBuffer := inb\<rparr>) (note_event (Received (tc_socket conn) got) w))
      c (conn\<lparr>tc_inputBuffer := inb\<rparr>) ch"
    and "handleRead cbs os t c w =
      (let w1 = put_conn c (conn\<lparr>tc_inputBuffer := inb\<rparr>) (note_event (Received (tc_socket conn) got) w)
       in if got = [] then handleClose cbs os c w1
          else case tc_messageCallback conn of
                 None \<Rightarrow> Inl BadFunctionCall | Some f \<Rightarrow> on_message cbs f c t w1)"
proof -
  note okD = conn_okD [OF ok]
  let ?f = "tc_socket conn" and ?b = "tc_inputBuffer conn"
  let ?v = "note_event (Received ?f got) w"
  have sys: "sys_read os ?f (read_room ?b) w = (int (length got), got, ?v)"
    using delivered got by (simp add: sys_read_def Let_def)
  have le: "length got \<le> unat (writableBytes ?b) + 65536"
    by (auto simp: read_room_def got)
  from readFd_delivery [OF okD(6) small sys [unfolded read_room_def] le]
  obtain inb where inb: "readFd os ?f ?b w = Inr (int (length got), None, inb, ?v)" "buf_inv inb"
      "contents inb = contents ?b @ got"
    by (auto simp: read_room_def)
  let ?w1 = "put_conn c (conn\<lparr>tc_inputBuffer := inb\<rparr>) ?v"
  have "handleRead cbs os t c w =
      (let w1 = ?w1 in if got = [] then handleClose cbs os c w1
       else case tc_messageCallback conn of None \<Rightarrow> Inl BadFunctionCall | Some f \<Rightarrow> on_message cbs f c t w1)"
    using okD(2,3,5) inb(1) by (simp add: handleRead_def Let_def invoke_def)
  then show ?thesis by (rule that [OF inb(3) conn_ok_input [OF ok inb(2) refl]])
qed

text \<open>
  C21. The read handler branches on what the kernel delivers: bytes go to the end of the input buffer,
  none lost and in order, and the message callback is called once on them; an end of file closes
  the connection; an error is logged, and neither the buffers nor the connection change.
\<close>

theorem handleRead_branches:
  assumes ok: "conn_ok w c conn ch"
    and small: "length (buf_data (tc_inputBuffer conn)) + 65536 \<le> vec_max"
  shows "case os_read os (io_trace w) (tc_socket conn) (read_room (tc_inputBuffer conn)) of
      Inl e \<Rightarrow> (\<exists>w' m. handleRead cbs os t c w = Inr w' \<and> conn_ok w' c conn ch \<and>
        io_trace w' = io_trace w @ [ReadFailed (tc_socket conn) e] \<and>
        io_log w' = io_log w @ [(ERROR, ''TcpConnection::handleRead''), (ERROR, m)])
    | Inr bytes \<Rightarrow>
        (let got = take (read_room (tc_inputBuffer conn)) bytes
         in \<exists>w1 inb. conn_ok w1 c (conn\<lparr>tc_inputBuffer := inb\<rparr>) ch \<and>
              contents inb = contents (tc_inputBuffer conn) @ got \<and>
              in_stream w1 conn = in_stream w conn @ got \<and>
              handleRead cbs os t c w =
                (if got = [] then handleClose cbs os c w1
                 else case tc_messageCallback conn of
                        None \<Rightarrow> Inl BadFunctionCall | Some f \<Rightarrow> on_message cbs f c t w1))"
proof -
  note okD = conn_okD [OF ok]
  let ?f = "tc_socket conn" and ?b = "tc_inputBuffer conn"
  show ?thesis
  proof (cases "os_read os (io_trace w) ?f (read_room ?b)")
    case (Inl e)
    let ?w1 = "note_event (ReadFailed ?f e) (w\<lparr>io_errno := e\<rparr>)"
    let ?w2 = "note_log ERROR ''TcpConnection::handleRead'' ((put_conn c conn ?w1)\<lparr>io_errno := e\<rparr>)"
    have rd: "readFd os ?f ?b w = Inr (-1, Some e, ?b, ?w1)"
      using Inl by (simp add: readFd_def sys_read_def read_room_def [symmetric] Let_def)
    have "loops_inv ?w2"
      by (rule loops_inv_io [OF okD(1), where evs = "[ReadFailed ?f e]"]) simp_all
    then have ok2: "conn_ok ?w2 c conn ch" using ok by (simp add: conn_ok_def)
    have run: "handleRead cbs os t c w = handleError os c ?w2"
      using okD(2,3,5) rd by (simp add: handleRead_def Let_def)
    obtain w' m where "handleError os c ?w2 = Inr w'" "conn_ok w' c conn ch"
        "io_trace w' = io_trace ?w2" "io_log w' = io_log ?w2 @ [(ERROR, m)]"
      by (rule handleError_conn [OF ok2])
    then show ?thesis using Inl run by (intro exI [of _ w'] exI [of _ m] | simp)+
  next
    case (Inr bytes)
    let ?got = "take (read_room ?b) bytes"
    obtain inb where "contents inb = contents ?b @ ?got"
        "conn_ok (put_conn c (conn\<lparr>tc_inputBuffer := inb\<rparr>) (note_event (Received ?f ?got) w))
          c (conn\<lparr>tc_inputBuffer := inb\<rparr>) ch"
        "handleRead cbs os t c w =
          (let w1 = put_conn c (conn\<lparr>tc_inputBuffer := inb\<rparr>) (note_event (Received ?f ?got) w)
           in if ?got = [] then handleClose cbs os c w1
              else case tc_messageCallback conn of
                     None \<Rightarrow> Inl BadFunctionCall | Some f \<Rightarrow> on_message cbs f c t w1)"
      by (rule handleRead_delivery [OF ok small Inr refl, of cbs t])
    then show ?thesis
      using Inr by (auto simp: Let_def in_stream_def
        intro!: exI [of _ "put_conn c (conn\<lparr>tc_inputBuffer := inb\<rparr>) (note_event (Received ?f ?got) w)"] exI [of _ inb])
  qed
qed

theorem handleRead_branches_witness:
  "\<exists>(w :: conn_world) conn w1 inb ch. handleRead
       \<lparr>on_connection = \<lambda>f c w. Inr w, on_message = \<lambda>f c t w. Inr w, on_writeComplete = \<lambda>f c w. Inr w,
        on_highWaterMark = \<lambda>f c n w. Inr w, on_close = \<lambda>f c w. Inr w, on_task = \<lambda>n w. Inr w\<rparr>
       (lab_os ''ping'' 0) TimeStamp_default 3 w = Inr w1 \<and>
     conn_ok w1 3 (conn\<lparr>tc_inputBuffer := inb\<rparr>) ch \<and> contents inb = ''ping''"
proof -
  obtain w :: conn_world and conn ch where w: "conn_ok w 3 conn ch"
      "tc_messageCallback conn = Some (UserFn 1)" "contents (tc_inputBuffer conn) = []"
      "length (buf_data (tc_inputBuffer conn)) = 1032"
    by (rule lab_connected [of Map.empty 7])
  have small: "length (buf_data (tc_inputBuffer conn)) + 65536 \<le> vec_max"
    by (simp add: w(4) vec_max_def)
  have "unat (writableBytes (tc_inputBuffer conn)) + 65536 \<ge> 4" by simp
  have room: "4 \<le> read_room (tc_inputBuffer conn)"
    by (auto simp: read_room_def word_less_nat_alt not_less)
  have rd: "os_read (lab_os ''ping'' 0) (io_trace w) (tc_socket conn) (read_room (tc_inputBuffer conn)) = Inr ''ping''"
    by (simp add: lab_os_def)
  have "take (read_room (tc_inputBuffer conn)) ''ping'' = ''ping''" using room by simp
  let ?cbs = "\<lparr>on_connection = \<lambda>f c w. Inr w, on_message = \<lambda>f c t w. Inr w, on_writeComplete = \<lambda>f c w. Inr w,
    on_highWaterMark = \<lambda>f c n w. Inr w, on_close = \<lambda>f c w. Inr w, on_task = \<lambda>n w. Inr w\<rparr> :: conn_world callbacks"
  from handleRead_branches [OF w(1) small, where os = "lab_os ''ping'' 0" and cbs = ?cbs and t = TimeStamp_default]
    rd room w(2,3)
  obtain w1 inb where "conn_ok w1 3 (conn\<lparr>tc_inputBuffer := inb\<rparr>) ch" "contents inb = ''ping''"
      "handleRead ?cbs (lab_os ''ping'' 0) TimeStamp_default 3 w = Inr w1"
    by (auto simp: Let_def)
  then show ?thesis by blast
qed

section \<open>Closing\<close>

text \<open>What \<open>handleClose\<close> does before it calls back.\<close>

lemma handleClose_result:
  assumes ok: "conn_ok w c conn ch"
  obtains w1 e r where "handleClose cbs os c w = bindE (invoke_connection cbs c w1) (invoke_close cbs c)"
    and "conn_ok w1 c (conn\<lparr>tc_state := kDisconnected\<rparr>) (set_index (updated_index (del_all ch)) (del_all ch))"
    and "io_trace w1 = io_trace w @ [Did (EpollCtl e (update_request (del_all ch)) (tc_socket conn) KNoneEvent
      (tc_channel conn)) r]"
    and "io_tid w1 = io_tid w"
    and "\<forall>l. map_option el_threadId (lw_loops w1 l) = map_option el_threadId (lw_loops w l)"
    and "tw_conns w1 = (tw_conns w)(c \<mapsto> conn\<lparr>tc_state := kDisconnected\<rparr>)"
    and "cw_channels w1 = (cw_channels w)(tc_channel conn \<mapsto> set_index (updated_index (del_all ch)) (del_all ch))"
    and "lw_next w1 = lw_next w" and "conn_world.more w1 = conn_world.more w"
    and "\<exists>lp q. lw_loops w (tc_loop conn) = Some lp \<and>
      lw_loops w1 = (lw_loops w)(tc_loop conn \<mapsto> lp\<lparr>el_poller := q\<rparr>)"
proof -
  let ?conn = "conn\<lparr>tc_state := kDisconnected\<rparr>"
  let ?w0 = "put_conn c ?conn w"
  have st: "setState kDisconnected c w = Inr ?w0" "conn_ok ?w0 c ?conn ch"
    by (rule setState_result [OF ok]; simp)+
  obtain w1 e r where w1: "change_events del_all os (tc_channel ?conn) ?w0 = Inr w1"
      "conn_ok w1 c ?conn (set_index (updated_index (del_all ch)) (del_all ch))"
      "io_tid w1 = io_tid ?w0"
      "io_trace w1 = io_trace ?w0 @ [Did (EpollCtl e (update_request (del_all ch)) (tc_socket ?conn) KNoneEvent
        (tc_channel ?conn)) r]"
      "\<forall>l. map_option el_threadId (lw_loops w1 l) = map_option el_threadId (lw_loops ?w0 l)"
      "tw_conns w1 = tw_conns ?w0"
      "cw_channels w1 = (cw_channels ?w0)(tc_channel ?conn \<mapsto> set_index (updated_index (del_all ch)) (del_all ch))"
      "lw_next w1 = lw_next ?w0" "conn_world.more w1 = conn_world.more ?w0"
      "\<exists>lp q. lw_loops ?w0 (tc_loop ?conn) = Some lp \<and>
        lw_loops w1 = (lw_loops ?w0)(tc_loop ?conn \<mapsto> lp\<lparr>el_poller := q\<rparr>)"
    by (rule change_events_conn [where change = del_all and os = os, OF st(2) del_all_def]) simp_all
  have "handleClose cbs os c w = bindE (invoke_connection cbs c w1) (invoke_close cbs c)"
    using conn_okD(2) [OF ok] st(1) w1(1) by (simp add: handleClose_def disableAll_def)
  then show ?thesis by (rule that) (use w1 in simp_all)
qed

text \<open>
  C17. Closing disconnects first: before either callback runs, the state is \<open>kDisconnected\<close>, the channel
  asks for no event, and a registered descriptor has been deleted from the interest list of its
  loop, so the loop reports no further event for it; then the connection callback and the close
  callback are called, in this order.
\<close>

theorem handleClose_disconnects:
  assumes ok: "conn_ok w c conn ch" and reg: "ch_index ch = KAdded"
  shows "\<exists>w1 ch1. handleClose cbs os c w = bindE (invoke_connection cbs c w1) (invoke_close cbs c) \<and>
      conn_ok w1 c (conn\<lparr>tc_state := kDisconnected\<rparr>) ch1 \<and>
      \<not> isReading ch1 \<and> \<not> isWriting ch1 \<and> ch_index ch1 = KDeleted \<and>
      (\<forall>p. poller_at (tc_loop conn) w1 = Some p \<longrightarrow>
         interest (ep_epollfd p) (io_trace w1) (tc_socket conn) = None)"
proof -
  let ?ch = "set_index (updated_index (del_all ch)) (del_all ch)"
  obtain w1 where w1: "handleClose cbs os c w = bindE (invoke_connection cbs c w1) (invoke_close cbs c)"
      "conn_ok w1 c (conn\<lparr>tc_state := kDisconnected\<rparr>) ?ch"
    by (rule handleClose_result [OF ok, of cbs os]) blast
  have idx: "ch_index ?ch = KDeleted"
    using reg mask_updates(11) [of ch] by (simp add: updated_index_def set_index_def del_all_def)
  have "interest (ep_epollfd p) (io_trace w1) (tc_socket conn) = None"
    if p: "poller_at (tc_loop conn) w1 = Some p" for p
  proof -
    note D = conn_okD [OF w1(2)]
    obtain lp where lp: "lw_loops w1 (tc_loop conn) = Some lp" "el_poller lp = Some p"
      using p by (auto simp: poller_at_def bind_eq_Some_conv)
    then have "poller_inv (tc_loop conn) p w1" using loops_invD(1) [OF D(1) lp(1)] by auto
    from poller_inv_chan [OF this D(3)] D(4,5) idx show ?thesis by (simp add: index_defs)
  qed
  then show ?thesis using w1 idx by (intro exI [of _ w1] exI [of _ ?ch]) simp
qed

theorem handleClose_disconnects_witness:
  "\<exists>(w :: conn_world) conn ch. conn_ok w 3 conn ch \<and> tc_state conn = kConnected \<and>
     (\<forall>cbs. \<exists>w1 ch1. handleClose cbs (ready_os 4) 3 w = bindE (invoke_connection cbs 3 w1) (invoke_close cbs 3) \<and>
       conn_ok w1 3 (conn\<lparr>tc_state := kDisconnected\<rparr>) ch1 \<and> ch_index ch1 = KDeleted)"
proof -
  obtain w :: conn_world and conn ch where w: "conn_ok w 3 conn ch" "tc_state conn = kConnected"
      "ch_index ch = KAdded"
    by (rule lab_registered)
  with handleClose_disconnects [OF w(1,3), of _ "ready_os 4"] show ?thesis by blast
qed

text \<open>
  C35. Disabling all events of a channel that is not registered registers it: \<open>updateChannel\<close> looks at
  the mask only when the channel is already added, so a second close (or the destruction of an
  acceptor that never listened) puts the descriptor back into epoll with an empty mask, for which
  epoll still reports errors and hang-ups.
\<close>

theorem disableAll_registers:
  assumes inv: "loops_inv w" and ch: "cw_channels w p = Some ch" and idx: "ch_index ch \<noteq> KAdded"
  shows "\<exists>w' q. disableAll os p w = Inr w' \<and> poller_at (ch_loop ch) w' = Some q \<and>
      interest (ep_epollfd q) (io_trace w') (ch_fd ch) = Some (0, p)"
proof -
  let ?ch = "set_index (updated_index (del_all ch)) (del_all ch)"
  obtain w' lp q where w': "change_events del_all os p w = Inr w'" "loops_inv w'"
      "cw_channels w' = (cw_channels w)(p \<mapsto> ?ch)" "lw_loops w (ch_loop ch) = Some lp"
      "lw_loops w' = (lw_loops w)(ch_loop ch \<mapsto> lp\<lparr>el_poller := q\<rparr>)"
    by (rule change_events_result [where change = del_all, OF inv ch del_all_def, of os]) blast
  obtain pl where pl: "q = Some pl" "poller_inv (ch_loop ch) pl w'"
    using loops_invD(1) [OF w'(2), of "ch_loop ch"] w'(5) by auto
  have "cw_channels w' p = Some ?ch" using w'(3) by simp
  from poller_inv_chan [OF pl(2) this] idx
  have "interest (ep_epollfd pl) (io_trace w') (ch_fd ch) = Some (0, p)"
    by (simp add: updated_index_def set_index_def del_all_def KNoneEvent_def)
  then show ?thesis
    using w'(1,5) pl(1) by (intro exI [of _ w'] exI [of _ pl]) (simp add: disableAll_def poller_at_def)
qed

theorem disableAll_registers_witness:
  "\<exists>(w :: conn_world) w' (q :: poller). disableAll (ready_os 4) 4 w = Inr w' \<and>
     interest (ep_epollfd q) (io_trace w') 9 = Some (0, 4)"
proof -
  obtain w :: conn_world and conn ch where w: "conn_ok w 3 conn ch" "tc_socket conn = 9"
      "ch_index ch = KNew" "tc_channel conn = 4"
    by (rule lab_connection [of Map.empty])
  note D = conn_okD [OF w(1)]
  have "ch_index ch \<noteq> KAdded" by (simp add: w(3) index_defs)
  from disableAll_registers [OF D(1,3) this, of "ready_os 4"]
  obtain w' :: conn_world and q :: poller where "disableAll (ready_os 4) (tc_channel conn) w = Inr w'"
      "interest (ep_epollfd q) (io_trace w') (ch_fd ch) = Some (0, tc_channel conn)"
    by blast
  moreover have "ch_fd ch = 9" using D(5,6) w(2) by simp
  ultimately have "disableAll (ready_os 4) 4 w = Inr w' \<and>
      interest (ep_epollfd q) (io_trace w') 9 = Some (0, 4)"
    using w(4) by simp
  then show ?thesis by blast
qed



end
