(* ===== verification/Server_Connections.thy ===== *)
theory Server_Connections
  imports Server_Properties Connection_Lifecycle
begin

text \<open>
  The connections of the server: their names, how one is accepted and how one is removed.
\<close>

section \<open>Names of connections\<close>

lemma conn_name_uncut:
  assumes "length (sv_ipPort s) \<le> 21" and "0 \<le> i" and "i \<le> 2147483647"
  shows "conn_name s i = sv_name s @ ''-'' @ sv_ipPort s @ ''#'' @ dec_int i"
  using assms(1) length_dec_int [OF assms(2,3)] by (simp add: conn_name_def)

text \<open>
  C34. Names of connections: the 64 bytes for the suffix are enough for every address and every id, so
  no name is cut and connections with different ids never share an entry of the map.
\<close>

theorem conn_names_distinct:
  assumes addr: "toInPort a = Inr (sv_ipPort s)"
    and "0 \<le> i" and "i \<le> 2147483647" and "0 \<le> j" and "j \<le> 2147483647"
  shows "conn_name s i = sv_name s @ ''-'' @ sv_ipPort s @ ''#'' @ dec_int i \<and>
      (conn_name s i = conn_name s j \<longleftrightarrow> i = j)"
  using assms(2-) conn_name_uncut [OF toInPort_length [OF addr]] by (simp add: dec_int_inject)

definition lab_tcp_server :: tcp_server where
  "lab_tcp_server = \<lparr>sv_loop = 1, sv_ipPort = ''127.0.0.1:9998'', sv_name = ''EchoServer'',
     sv_acceptor = \<lparr>ac_loop = 1, ac_socket = 5, ac_channel = 3, ac_callback = True, ac_listening = True\<rparr>,
     sv_threadPool = EventLoopThreadPool_new 1 ''EchoServer'',
     sv_connectionCallback = Some (UserFn 0), sv_messageCallback = Some (UserFn 1),
     sv_writeCompleteCallback = None, sv_threadInitCallback = None, sv_started = 1,
     sv_nextConnId = 1, sv_connections = Map.empty\<rparr>"

theorem conn_names_distinct_witness:
  "\<exists>t. toInPort lab_addr = Inr t \<and>
     conn_name (lab_tcp_server\<lparr>sv_ipPort := t\<rparr>) 2147483647 \<noteq> conn_name (lab_tcp_server\<lparr>sv_ipPort := t\<rparr>) 214748364"
proof -
  obtain t where t: "toInPort lab_addr = Inr t" using toInPort_total [of lab_addr] by blast
  then have ip: "toInPort lab_addr = Inr (sv_ipPort (lab_tcp_server\<lparr>sv_ipPort := t\<rparr>))" by simp
  have "conn_name (lab_tcp_server\<lparr>sv_ipPort := t\<rparr>) 2147483647 = conn_name (lab_tcp_server\<lparr>sv_ipPort := t\<rparr>) 214748364
      \<longleftrightarrow> (2147483647 :: int) = 214748364"
    by (rule conjunct2 [OF conn_names_distinct [OF ip]]) simp_all
  with t show ?thesis by simp
qed

section \<open>Accepting a connection\<close>



section \<open>Removing a connection\<close>

lemma woken_write: "wakeup_events f evs \<Longrightarrow> evs \<noteq> [] \<Longrightarrow> woken f evs"
  by (cases evs) (auto simp: wakeup_events_def woken_def)

lemma wakeup_closes: "wakeup_events f evs \<Longrightarrow> closed_fds evs = []"
  by (induction evs) (auto simp: wakeup_events_def closed_fds_def)

lemma removeConnectionInPool_result:
  fixes w :: "'a server_world_scheme"
  assumes s: "sw_server w = Some s" and conn: "tw_conns w c = Some conn" and lp: "lw_loops w (tc_loop conn) = Some lp"
  obtains w' evs where "removeConnectionInPool os c w = Inr w'"
    and "sw_server w' = Some (s\<lparr>sv_connections := (sv_connections s)(tc_name conn := None)\<rparr>)"
    and "tw_conns w' = tw_conns w" and "cw_channels w' = cw_channels w"
    and "lw_loops w' = (lw_loops w)(tc_loop conn \<mapsto>
      lp\<lparr>el_pendingFunctors := el_pendingFunctors lp @ [ConnectDestroyed c]\<rparr>)"
    and "io_trace w' = io_trace w @ evs" and "wakeup_events (el_wakeupFd lp) evs"
    and "el_threadId lp \<noteq> io_tid w \<Longrightarrow> woken (el_wakeupFd lp) evs"
    and "lw_next w' = lw_next w" and "io_tid w' = io_tid w" and "closed_fds evs = []"
proof -
  let ?v = "put_server (s\<lparr>sv_connections := (sv_connections s)(tc_name conn := None)\<rparr>) w"
  have lp': "lw_loops ?v (tc_loop conn) = Some lp" using lp by simp
  obtain w' evs where w': "queueInLLoop os (tc_loop conn) (ConnectDestroyed c) ?v = Inr w'"
      "lw_loops w' = (lw_loops ?v)(tc_loop conn \<mapsto>
        lp\<lparr>el_pendingFunctors := el_pendingFunctors lp @ [ConnectDestroyed c]\<rparr>)"
      "cw_channels w' = cw_channels ?v" "loop_world.more w' = loop_world.more ?v" "lw_next w' = lw_next ?v"
      "io_tid w' = io_tid ?v" "io_trace w' = io_trace ?v @ evs" "wakeup_events (el_wakeupFd lp) evs"
      "el_threadId lp \<noteq> io_tid ?v \<or> el_callingPendingFunctors lp \<Longrightarrow> evs \<noteq> []"
    by (rule queueInLLoop_result [OF lp', of os "ConnectDestroyed c"]) blast
  have run: "removeConnectionInPool os c w = Inr w'"
    using s conn w'(1) by (simp add: the_server_def removeConnectionInPool_def)
  have woken: "woken (el_wakeupFd lp) evs" if "el_threadId lp \<noteq> io_tid w"
    using w'(8,9) that by (intro woken_write) simp_all
  show ?thesis
    by (rule that [OF run _ _ _ _ _ w'(8) woken]) (use w' wakeup_closes [OF w'(8)] in \<open>simp_all add: conn_more server_more\<close>)
qed

text \<open>
  C15. Removing: a connection that was closed leaves the map of the server, and its destruction is
  queued in its own loop (and that loop woken up when it runs in another thread), so it is never
  destroyed under the feet of the handler that reported the close. The connection itself and its
  channel are not touched yet. From a thread other than the server's the whole step is queued first.
\<close>

theorem removeConnection_unlinks:
  fixes w :: "'a server_world_scheme"
  assumes s: "sw_server w = Some s" and conn: "tw_conns w c = Some conn"
    and lp: "lw_loops w (tc_loop conn) = Some lp" and base: "lw_loops w (sv_loop s) = Some blp"
  shows "\<exists>w' evs. removeConnection os c w = Inr w' \<and> tw_conns w' = tw_conns w \<and> cw_channels w' = cw_channels w \<and>
      io_trace w' = io_trace w @ evs \<and>
      (if el_threadId blp = io_tid w then
         sw_server w' = Some (s\<lparr>sv_connections := (sv_connections s)(tc_name conn := None)\<rparr>) \<and>
         pending (tc_loop conn) w' = pending (tc_loop conn) w @ [ConnectDestroyed c] \<and>
         (el_threadId lp \<noteq> io_tid w \<longrightarrow> woken (el_wakeupFd lp) evs)
       else sw_server w' = Some s \<and>
         pending (sv_loop s) w' = pending (sv_loop s) w @ [RemoveConnectionInPool c] \<and>
         woken (el_wakeupFd blp) evs)"
proof (cases "el_threadId blp = io_tid w")
  case True
  obtain w' evs where w': "removeConnectionInPool os c w = Inr w'"
      "sw_server w' = Some (s\<lparr>sv_connections := (sv_connections s)(tc_name conn := None)\<rparr>)"
      "tw_conns w' = tw_conns w" "cw_channels w' = cw_channels w"
      "lw_loops w' = (lw_loops w)(tc_loop conn \<mapsto>
        lp\<lparr>el_pendingFunctors := el_pendingFunctors lp @ [ConnectDestroyed c]\<rparr>)"
      "io_trace w' = io_trace w @ evs" "el_threadId lp \<noteq> io_tid w \<longrightarrow> woken (el_wakeupFd lp) evs"
    by (rule removeConnectionInPool_result [OF s conn lp, of os]) blast
  have "removeConnection os c w = Inr w'"
    using s base True w'(1) by (simp add: the_server_def removeConnection_def runInLoop_def isInLoopThread_def)
  then show ?thesis
    using w' lp True by (intro exI [of _ w'] exI [of _ evs]) (simp add: pending_def)
next
  case False
  obtain w' evs where w': "queueInLLoop os (sv_loop s) (RemoveConnectionInPool c) w = Inr w'"
      "lw_loops w' = (lw_loops w)(sv_loop s \<mapsto>
        blp\<lparr>el_pendingFunctors := el_pendingFunctors blp @ [RemoveConnectionInPool c]\<rparr>)"
      "cw_channels w' = cw_channels w" "loop_world.more w' = loop_world.more w"
      "io_trace w' = io_trace w @ evs" "wakeup_events (el_wakeupFd blp) evs" "evs \<noteq> []"
    by (rule queueInLLoop_result [OF base, of os "RemoveConnectionInPool c"]) (use False in blast)
  have "removeConnection os c w = Inr w'"
    using s base False w'(1) by (simp add: the_server_def removeConnection_def runInLoop_def isInLoopThread_def)
  then show ?thesis
    using w' base False s woken_write [OF w'(6,7)]
    by (intro exI [of _ w'] exI [of _ evs]) (simp add: conn_more server_more pending_def)
qed

text \<open>A server with one connection, in the loop's thread.\<close>

lemma lab_server_connection:
  obtains w :: server_world and conn lp where "sw_server w = Some s" and "tw_conns w = [3 \<mapsto> conn]"
    and "lw_loops w = [1 \<mapsto> lp]" and "el_threadId lp = 7" and "io_tid w = 7"
    and "el_pendingFunctors lp = []" and "tc_loop conn = 1" and "tc_name conn = name"
proof -
  obtain w :: server_world and lp where w: "lw_loops w = [1 \<mapsto> lp]" "el_threadId lp = 7" "io_tid w = 7"
      "el_pendingFunctors lp = []" "tw_conns w = Map.empty" "sw_server w = Some s" "lw_next w = 3"
    by (rule lab_server_loop [of "Some s"])
  obtain w' conn where "tw_conns w' = (tw_conns w)(lw_next w \<mapsto> conn)" "tc_loop conn = 1"
      "tc_name conn = name" "lw_loops w' = lw_loops w" "conn_world.more w' = conn_world.more w" "io_tid w' = io_tid w"
    by (rule TcpConnection_new_result [of "ready_os 4" 1 name 9 lab_addr lab_addr w])
  with w show ?thesis by (intro that [of w' conn lp]) (simp_all add: server_more)
qed

theorem removeConnection_unlinks_witness:
  "\<exists>(w :: server_world) conn s w'. tw_conns w 3 = Some conn \<and> sv_connections s (tc_name conn) = Some 3 \<and>
     sw_server w = Some s \<and> removeConnection (ready_os 4) 3 w = Inr w' \<and> tw_conns w' 3 = Some conn \<and>
     sw_server w' = Some (s\<lparr>sv_connections := (sv_connections s)(tc_name conn := None)\<rparr>) \<and>
     pending 1 w' = [ConnectDestroyed 3]"
proof -
  let ?s = "lab_tcp_server\<lparr>sv_connections := [''c'' \<mapsto> 3]\<rparr>"
  obtain w :: server_world and conn lp where w: "sw_server w = Some ?s" "tw_conns w = [3 \<mapsto> conn]"
      "lw_loops w = [1 \<mapsto> lp]" "el_threadId lp = 7" "io_tid w = 7" "el_pendingFunctors lp = []"
      "tc_loop conn = 1" "tc_name conn = ''c''"
    by (rule lab_server_connection [of ?s "''c''"])
  have c: "tw_conns w 3 = Some conn" and lp: "lw_loops w (tc_loop conn) = Some lp"
    and base: "lw_loops w (sv_loop ?s) = Some lp"
    using w by (simp_all add: lab_tcp_server_def)
  have none: "pending (tc_loop conn) w = []" using w by (simp add: pending_def)
  from removeConnection_unlinks [OF w(1) c lp base, of "ready_os 4"] w(4,5) none
  obtain w' where "removeConnection (ready_os 4) 3 w = Inr w'" "tw_conns w' = tw_conns w"
      "sw_server w' = Some (?s\<lparr>sv_connections := (sv_connections ?s)(tc_name conn := None)\<rparr>)"
      "pending (tc_loop conn) w' = [ConnectDestroyed 3]"
    by auto
  then show ?thesis using w c
    by (intro exI [of _ w] exI [of _ conn] exI [of _ ?s] exI [of _ w']) simp
qed

end
