(* ===== verification/Server_Setup.thy ===== *)
theory Server_Setup
  imports Server_Connections
begin

text \<open>
  From the start of the process to the running server: \<open>main\<close> establishes the invariant of the
  program, and every round of a loop keeps it.
\<close>

section \<open>Starting up\<close>

text \<open>
  While the process starts, every \<open>epoll_ctl\<close> is made on an open instance and nothing is closed.
\<close>

definition setup_inv :: "'a conn_world_scheme \<Rightarrow> bool" where
  "setup_inv w \<longleftrightarrow> world_inv w \<and>
     (\<forall>e op f m c r. Did (EpollCtl e op f m c) r \<in> set (io_trace w) \<longrightarrow> e \<in> open_fds (io_trace w)) \<and>
     (\<forall>ev \<in> set (io_trace w). \<not> closes ev)"

lemma setup_invD:
  assumes "setup_inv w"
  shows "world_inv w" and "e \<notin> open_fds (io_trace w) \<Longrightarrow> Did (EpollCtl e op f m c) r \<notin> set (io_trace w)"
    and "\<forall>ev \<in> set (io_trace w). \<not> closes ev"
  using assms unfolding setup_inv_def by blast+

lemma interest_untouched:
  assumes "\<forall>op f m c r. Did (EpollCtl e op f m c) r \<notin> set tr"
  shows "interest e tr = Map.empty \<and> legal_trace e tr"
  using assms
proof (induction tr rule: rev_induct)
  case Nil
  then show ?case by (simp add: interest_def legal_trace_def)
next
  case (snoc ev tr)
  then have IH: "interest e tr = Map.empty" "legal_trace e tr" by auto
  have no: "ev \<noteq> Did (EpollCtl e op f m c) r" for op f m c r
  proof
    assume "ev = Did (EpollCtl e op f m c) r"
    then have "Did (EpollCtl e op f m c) r \<in> set (tr @ [ev])" by simp
    with snoc.prems show False by blast
  qed
  have "interest_step e ev Map.empty = Map.empty"
    by (cases "(e, ev, Map.empty :: int \<Rightarrow> (32 word \<times> chan_ptr) option)" rule: interest_step.cases) (auto simp: no)
  moreover have "legal_event e Map.empty ev"
    by (cases "(e, Map.empty :: int \<Rightarrow> (32 word \<times> chan_ptr) option, ev)" rule: legal_event.cases) (auto simp: no)
  ultimately show ?case by (simp add: interest_snoc legal_trace_snoc IH)
qed

lemma fresh_epoll_setup:
  assumes "setup_inv w" and "e \<notin> open_fds (io_trace w)"
  shows "fresh_epoll e w"
proof -
  have "epolls_inv w" using setup_invD(1) [OF assms(1)] by (simp add: world_inv_def)
  then have "\<forall>l p. poller_at l w = Some p \<longrightarrow> ep_epollfd p \<noteq> e" using assms(2) by (auto simp: epolls_inv_def)
  moreover have "interest e (io_trace w) = Map.empty \<and> legal_trace e (io_trace w)"
    by (rule interest_untouched) (use setup_invD(2) [OF assms(1,2)] in blast)
  ultimately show ?thesis by (simp add: fresh_epoll_def)
qed

lemma open_fds_setup:
  assumes "\<forall>ev \<in> set evs. \<not> closes ev"
  shows "open_fds (tr @ evs) = open_fds tr \<union> {f. \<exists>k. Opened k f \<in> set evs}"
  using assms
proof (induction evs rule: rev_induct)
  case Nil
  then show ?case by simp
next
  case (snoc ev evs)
  have "fd_step ev S = S \<union> {f. \<exists>k. Opened k f \<in> {ev}}" for S
    using snoc.prems by (cases "(ev, S)" rule: fd_step.cases) (auto simp: closes_def)
  with snoc show ?case by (auto simp flip: append_assoc)
qed

text \<open>A safe step during start-up.\<close>

lemma setup_step:
  assumes inv: "setup_inv w" and "safe w w'" and tr: "io_trace w' = io_trace w @ evs"
    and evs: "\<forall>ev \<in> set evs. \<not> closes ev"
    and ctl: "\<And>e op f m c r. Did (EpollCtl e op f m c) r \<in> set evs \<Longrightarrow> e \<in> open_fds (io_trace w')"
  shows "setup_inv w' \<and> stays w w'"
proof -
  have "world_inv w' \<and> stays w w'" using assms(2) setup_invD(1) [OF inv] by (simp add: safe_def)
  moreover have "e \<in> open_fds (io_trace w')" if "Did (EpollCtl e op f m c) r \<in> set (io_trace w')" for e op f m c r
  proof (cases "Did (EpollCtl e op f m c) r \<in> set evs")
    case False
    then have "Did (EpollCtl e op f m c) r \<in> set (io_trace w)" using that tr by simp
    then have "e \<in> open_fds (io_trace w)" using setup_invD(2) [OF inv] by blast
    then show ?thesis unfolding tr using open_fds_grow [OF evs] by blast
  qed (rule ctl)
  ultimately show ?thesis using setup_invD(3) [OF inv] evs tr by (auto simp: setup_inv_def)
qed

definition opens :: "os \<Rightarrow> bool" where
  "opens os \<longleftrightarrow> (\<forall>h k. \<exists>f. os_open os h k = Inr f)"

lemma sys_open_fresh:
  assumes "opens os" and "fresh_descriptors os"
  obtains f where "sys_open os k w = (f, note_event (Opened k f) w)" and "f \<notin> open_fds (io_trace w)" and "0 \<le> f"
proof -
  obtain n where n: "os_open os (io_trace w) k = Inr n" using assms(1) by (auto simp: opens_def)
  show ?thesis
    by (rule that [of "int n"]) (use n assms(2) in \<open>auto simp: sys_open_def fresh_descriptors_def\<close>)
qed

lemma addr_ok_free:
  assumes "addr_ok w"
  shows "lw_next w \<le> n \<Longrightarrow> lw_loops w n = None" and "lw_next w \<le> n \<Longrightarrow> cw_channels w n = None"
  using assms unfolding addr_ok_def by (metis domIff linorder_not_less)+

lemma EventLoop_new_setup:
  fixes w :: "'a conn_world_scheme"
  assumes inv: "setup_inv w" and os: "opens os" "fresh_descriptors os"
  obtains w' p f where "EventLoop_new False os w = Inr (lw_next w, w')" and "setup_inv w'" and "stays w w'"
    and "lw_loops w' = (lw_loops w)(lw_next w \<mapsto> new_loop (io_tid w) p f (lw_next w + 1))"
    and "loop_world.more w' = loop_world.more w" and "io_tid w' = io_tid w"
    and "cw_channels w \<subseteq>\<^sub>m cw_channels w'"
proof -
  have wi: "addr_ok w" "loops_inv w" "conns_inv w" "fds_inv w" "epolls_inv w"
    using setup_invD(1) [OF inv] by (simp_all add: world_inv_def)
  note free = addr_ok_free [OF wi(1)]
  obtain e where e: "sys_open os EpollCreate w = (e, note_event (Opened EpollCreate e) w)"
      "e \<notin> open_fds (io_trace w)" "0 \<le> e"
    by (rule sys_open_fresh [OF os])
  let ?w1 = "note_event (Opened EpollCreate e) w"
  obtain f where f: "sys_open os EventFd ?w1 = (f, note_event (Opened EventFd f) ?w1)"
      "f \<notin> open_fds (io_trace ?w1)" "0 \<le> f"
    by (rule sys_open_fresh [OF os])
  let ?w2 = "note_event (Opened EventFd f) ?w1"
  let ?p = "\<lparr>ep_epollfd = e, ep_events = replicate KInitEventListSize (0, 0), ep_channels = Map.empty\<rparr>"
  have p: "newDefaultPoller False os w = (Some ?p, ?w1)"
    using e(1,3) by (simp add: newDefaultPoller_def EpollPoller_new_def)
  have ev: "createEventfd os ?w1 = (f, ?w2)" using f(1,3) by (simp add: createEventfd_def)
  have fd: "fresh_fd f w" using wi(4) f(2) by (auto simp: fds_inv_def fresh_fd_def)
  have fe: "fresh_epoll (ep_epollfd ?p) w" using fresh_epoll_setup [OF inv e(2)] by simp
  obtain w' p' ch op m r where w': "EventLoop_new False os w = Inr (lw_next w, w')" "loops_inv w'"
      "lw_loops w' = (lw_loops w)(lw_next w \<mapsto> new_loop (io_tid w) p' f (lw_next w + 1))"
      "cw_channels w' = (cw_channels w)(lw_next w + 1 \<mapsto> ch)" "ch_fd ch = f" "ch_loop ch = lw_next w"
      "io_tid w' = io_tid w" "lw_next w' = lw_next w + 2" "loop_world.more w' = loop_world.more w"
      "ep_epollfd p' = e"
      "io_trace w' = io_trace ?w2 @ [Did (EpollCtl e op f m (lw_next w + 1)) r]"
    by (rule EventLoop_new_result [OF wi(2) free(1) [OF le_refl] free(2) p ev fe fd]) auto
  have tr: "io_trace w' = io_trace w @ [Opened EpollCreate e, Opened EventFd f,
      Did (EpollCtl e op f m (lw_next w + 1)) r]" using w'(11) by simp
  have fds: "open_fds (io_trace w') = open_fds (io_trace w) \<union> {e, f}"
    unfolding tr by (subst open_fds_setup) (auto simp: closes_def)
  have at: "poller_at k w' = (if k = lw_next w then Some p' else poller_at k w)" for k
    by (simp add: poller_at_def w'(3) new_loop_def)
  have conns: "tw_conns w' = tw_conns w" using w'(9) by (simp add: conn_more)
  have lt: "cw_channels w n = Some y \<Longrightarrow> n < lw_next w" "lw_loops w n = Some z \<Longrightarrow> n < lw_next w" for n y z
    using wi(1) by (auto simp: addr_ok_def)
  have "addr_ok w'" unfolding addr_ok_def w'(3,4,8) by (auto intro!: less_SucI dest: lt)
  moreover have home: "cw_channels w' q = cw_channels w q" if "cw_channels w q \<noteq> None" for q
    using that free(2) [of "lw_next w + 1"] by (auto simp: w'(4))
  then have chome: "map_option channel_home (cw_channels w' q) = Some h"
    if "map_option channel_home (cw_channels w q) = Some h" for q h
    using that by auto
  have "conns_inv w'"
    using wi(3) chome unfolding conns_inv_def conns w'(8) by (metis trans_less_add1)
  moreover have "fds_inv w'" using wi(4) unfolding fds_inv_def w'(4) fds by (auto simp: w'(5))
  moreover have "epolls_inv w'"
    using wi(4,5) e(2) f(2) unfolding epolls_inv_def fds_inv_def at w'(4) fds
    by (auto simp: w'(5,10) split: if_splits)
  ultimately have "world_inv w'" using w'(2) by (simp add: world_inv_def)
  moreover have "stays w w'" using home unfolding stays_def conns w'(3,8) by auto
  ultimately have safe: "safe w w'" by (simp add: safe_def)
  have "setup_inv w' \<and> stays w w'"
    by (rule setup_step [OF inv safe tr]) (auto simp: closes_def fds)
  moreover have "cw_channels w \<subseteq>\<^sub>m cw_channels w'" unfolding map_le_def using home by auto
  ultimately show ?thesis using that w' by blast
qed

text \<open>Steps of the kinds that start-up is made of.\<close>

lemma quiet_setup:
  fixes w w' :: "'a conn_world_scheme"
  assumes inv: "setup_inv w" and q: "quiet_step w w'"
  shows "setup_inv w' \<and> stays w w'"
proof -
  obtain evs where evs: "io_trace w' = io_trace w @ evs" "\<forall>ev \<in> set evs. harmless ev"
    using q by (auto simp: quiet_step_def)
  show ?thesis
    by (rule setup_step [OF inv quiet_safe [OF q] evs(1)]) (use evs(2) harmless_closes in force)+
qed

lemma same_setup:
  fixes w w' :: "'a conn_world_scheme"
  assumes "setup_inv w" and "io_trace w' = io_trace w" and "lw_loops w' = lw_loops w"
    and "map_option registration \<circ> cw_channels w' = map_option registration \<circ> cw_channels w"
    and "tw_conns w' = tw_conns w" and "lw_next w' = lw_next w"
  shows "setup_inv w' \<and> stays w w'"
proof (rule setup_step [OF assms(1), where evs = "[]"])
  have reg: "map_option registration (cw_channels w' p) = map_option registration (cw_channels w p)" for p
    using assms(4) by (metis comp_apply)
  have home: "map_option channel_home x = map_option (\<lambda>(l, f, _). (l, f)) (map_option registration x)" for x
    by (cases x) (simp_all add: channel_home_def registration_def)
  have dom: "dom (cw_channels w') = dom (cw_channels w)"
    using reg by (metis (no_types) domIff map_option_is_None subsetI subset_antisym)
  show "safe w w'"
  proof (rule safe_same_conns [where evs = "[]"])
    show "world_inv w \<Longrightarrow> loops_inv w'"
      by (rule loops_inv_frame [where evs = "[]"])
        (use assms reg in \<open>auto simp: world_inv_def same_pollers_def same_registrations_def\<close>)
  qed (use assms reg dom in \<open>simp_all add: home addr_ok_def\<close>)
qed (use assms(2) in simp_all)

lemma new_channel_setup:
  fixes w :: "'a conn_world_scheme"
  assumes inv: "setup_inv w" and f: "ch_fd ch \<in> open_fds (io_trace w)" "fresh_fd (ch_fd ch) w"
      "\<And>l p. poller_at l w = Some p \<Longrightarrow> ep_epollfd p \<noteq> ch_fd ch"
    and l: "lw_loops w (ch_loop ch) \<noteq> None" and new: "ch_index ch = KNew"
    and w': "w' = put_channel (lw_next w) ch (w\<lparr>lw_next := lw_next w + 1\<rparr>)"
  shows "setup_inv w' \<and> stays w w'"
proof (rule setup_step [OF inv, where evs = "[]"])
  have wi: "addr_ok w" "loops_inv w" "conns_inv w" "fds_inv w" "epolls_inv w"
    using setup_invD(1) [OF inv] by (simp_all add: world_inv_def)
  have free: "cw_channels w (lw_next w) = None" by (rule addr_ok_free(2) [OF wi(1) le_refl])
  have lt: "cw_channels w n = Some y \<Longrightarrow> n < lw_next w" "lw_loops w n = Some z \<Longrightarrow> n < lw_next w" for n y z
    using wi(1) by (auto simp: addr_ok_def)
  have "addr_ok w'" unfolding addr_ok_def w' by (auto intro!: less_SucI dest: lt)
  moreover have "loops_inv w'"
    by (rule loops_inv_new_channel [OF wi(2) free, where evs = "[]" and ch = ch])
      (use f l new in \<open>auto simp: w' same_pollers_def fresh_fd_def\<close>)
  moreover have home: "cw_channels w' q = cw_channels w q" if "cw_channels w q \<noteq> None" for q
    using that free by (auto simp: w')
  then have chome: "map_option channel_home (cw_channels w' q) = Some h"
    if "map_option channel_home (cw_channels w q) = Some h" for q h
    using that by auto
  have conns: "tw_conns w' = tw_conns w" "lw_next w' = lw_next w + 1" by (simp_all add: w')
  have "conns_inv w'"
    using wi(3) chome unfolding conns_inv_def conns by (metis trans_less_add1)
  moreover have "fds_inv w'" using wi(4) f(1) by (auto simp: fds_inv_def w')
  moreover have "epolls_inv w'" using wi(5) f(3) by (fastforce simp: epolls_inv_def w' poller_at_def)
  ultimately have "world_inv w'" by (simp add: world_inv_def)
  moreover have "stays w w'" using home unfolding stays_def by (auto simp: w')
  ultimately show "safe w w'" by (simp add: safe_def)
qed (simp_all add: w')

lemma sockopt_quiet: "quiet_step w (set_option os opt f on w)"
  by (cases rule: sys_call_cases [of os "SetSockOpt f opt (if on then 1 else 0)" w]) (auto simp: set_option_def)

lemma bind_quiet: "quiet_step w (bindAddress os f a w)"
  by (cases rule: sys_call_cases [of os "BindSock f a" w])
    (auto simp: bindAddress_def intro: quiet_step_trans [OF _ quiet_steps(2)])

lemma listen_quiet: "quiet_step w (socket_listen os f w)"
  by (cases rule: sys_call_cases [of os "ListenSock f 1024" w])
    (auto simp: socket_listen_def intro: quiet_step_trans [OF _ quiet_steps(2)])

text \<open>The acceptor: its channel is unregistered and has the accepting callback.\<close>

lemma Acceptor_new_setup:
  fixes w :: "'a conn_world_scheme"
  assumes inv: "setup_inv w" and os: "opens os" "fresh_descriptors os" and l: "lw_loops w l \<noteq> None"
  obtains a w' ch where "Acceptor_new os l addr reuse w = (a, w')" and "setup_inv w'" and "stays w w'"
    and "cw_channels w' = (cw_channels w)(ac_channel a \<mapsto> ch)" and "ch_loop ch = l" and "ch_fd ch = ac_socket a"
    and "ch_ReadCallBack ch = Some AcceptorRead" and "lw_loops w' = lw_loops w"
    and "loop_world.more w' = loop_world.more w" and "io_tid w' = io_tid w" and "ac_loop a = l"
proof -
  obtain f where f: "sys_open os StreamSocket w = (f, note_event (Opened StreamSocket f) w)"
      "f \<notin> open_fds (io_trace w)" "0 \<le> f"
    by (rule sys_open_fresh [OF os])
  let ?w1 = "note_event (Opened StreamSocket f) w" and ?c = "lw_next w"
  have c: "createNonBlocking os w = (f, ?w1)" using f(1,3) by (simp add: createNonBlocking_def)
  have 1: "setup_inv ?w1 \<and> stays w ?w1" by (rule quiet_setup [OF inv]) simp
  have wi: "fds_inv w" "epolls_inv w" using setup_invD(1) [OF inv] by (simp_all add: world_inv_def)
  let ?w2 = "put_channel ?c (Channel_new l f) (?w1\<lparr>lw_next := ?c + 1\<rparr>)"
  have 2: "setup_inv ?w2 \<and> stays ?w1 ?w2"
    by (rule new_channel_setup [where ch = "Channel_new l f"])
      (use 1 wi f(2) l in \<open>auto simp: Channel_new_def index_defs fds_inv_def epolls_inv_def fresh_fd_def poller_at_def\<close>)
  define w3 where "w3 = bindAddress os f addr (setReusePort os f True (setReuseAddr os f True ?w2))"
  have q: "quiet_step ?w2 w3"
    unfolding w3_def option_setters
    by (rule quiet_step_trans [OF quiet_step_trans [OF sockopt_quiet sockopt_quiet] bind_quiet])
  have 3: "setup_inv w3 \<and> stays ?w2 w3" by (rule quiet_setup [OF conjunct1 [OF 2] q])
  have w3: "cw_channels w3 = (cw_channels w)(?c \<mapsto> Channel_new l f)" "lw_loops w3 = lw_loops w"
      "loop_world.more w3 = loop_world.more w" "lw_next w3 = ?c + 1" "io_tid w3 = io_tid w"
    using q by (simp_all add: quiet_step_def loop_more)
  let ?ch = "setReadCallback AcceptorRead (Channel_new l f)"
  let ?w4 = "put_channel ?c ?ch w3"
  have 4: "setup_inv ?w4 \<and> stays w3 ?w4"
    by (rule same_setup) (use 3 w3 in \<open>auto simp: registration_def setReadCallback_def fun_eq_iff\<close>)
  have run: "Acceptor_new os l addr reuse w =
      (\<lparr>ac_loop = l, ac_socket = f, ac_channel = ?c, ac_callback = False, ac_listening = False\<rparr>, ?w4)"
    using c by (simp add: Acceptor_new_def w3_def Let_def)
  have st: "stays w ?w4" using 1 2 3 4 stays_trans by metis
  show ?thesis
    by (rule that [OF run _ st, where ch = ?ch])
      (use 4 w3 in \<open>simp_all add: setReadCallback_def Channel_new_def\<close>)
qed

text \<open>The threads of the pool, each with its loop.\<close>

lemma pool_thread_setup:
  fixes w :: "'a conn_world_scheme"
  assumes inv: "setup_inv w" and os: "opens os" "fresh_descriptors os"
  obtains t l lp w' where "pool_start_thread False os on_init None i (p, w) =
      Inr (p\<lparr>tp_threads := tp_threads p @ [t], tp_loops := tp_loops p @ [l]\<rparr>, w')"
    and "setup_inv w'" and "stays w w'" and "lw_loops w' = (lw_loops w)(l \<mapsto> lp)" and "lw_loops w l = None"
    and "loop_world.more w' = loop_world.more w" and "io_tid w' = io_tid w"
    and "cw_channels w \<subseteq>\<^sub>m cw_channels w'"
proof -
  obtain t w1 where t: "EventLoopThread_new None (pool_thread_name p i) w = (t, w1)" by fastforce
  then have w1: "w1 = w\<lparr>lw_numCreated := atomic_increment (lw_numCreated w)\<rparr>" "lt_callback t = None"
    by (auto simp: EventLoopThread_new_def Thread_new_def setDefaultName_def Let_def)
  let ?tid = "os_spawn os (io_trace w)"
  let ?t = "(lt_thread t)\<lparr>th_started := True, th_thread := True, th_tid := ?tid\<rparr>"
  let ?w2 = "note_event (Spawned ?tid) w1"
  have st: "Thread_start os (lt_thread t) w1 = (?t, ?w2)"
    by (simp add: Thread_start_def sys_spawn_def w1 Let_def)
  have 1: "setup_inv w1 \<and> stays w w1" by (rule same_setup [OF inv]) (simp_all add: w1)
  then have 2: "setup_inv ?w2 \<and> stays w1 ?w2" by (intro quiet_setup) auto
  let ?w3 = "?w2\<lparr>io_tid := ?tid\<rparr>"
  have 3: "setup_inv ?w3 \<and> stays ?w2 ?w3" by (rule same_setup [OF conjunct1 [OF 2]]) simp_all
  obtain w4 q f where 4: "EventLoop_new False os ?w3 = Inr (lw_next ?w3, w4)" "setup_inv w4" "stays ?w3 w4"
      "lw_loops w4 = (lw_loops ?w3)(lw_next ?w3 \<mapsto> new_loop (io_tid ?w3) q f (lw_next ?w3 + 1))"
      "loop_world.more w4 = loop_world.more ?w3" "cw_channels ?w3 \<subseteq>\<^sub>m cw_channels w4"
    by (rule EventLoop_new_setup [OF conjunct1 [OF 3] os])
  let ?w5 = "w4\<lparr>io_tid := io_tid w1\<rparr>"
  have 5: "setup_inv ?w5 \<and> stays w4 ?w5" by (rule same_setup [OF 4(2)]) simp_all
  have nxt: "lw_next ?w3 = lw_next w" "lw_loops ?w3 = lw_loops w" "cw_channels ?w3 = cw_channels w"
      "loop_world.more ?w3 = loop_world.more w"
    by (simp_all add: w1)
  have "addr_ok w" using setup_invD(1) [OF inv] by (simp add: world_inv_def)
  then have "lw_loops w (lw_next w) = None" by (rule addr_ok_free(1)) simp
  moreover have "stays w ?w5" using 1 2 3 4(3) 5 stays_trans by metis
  moreover have "pool_start_thread False os on_init None i (p, w) =
      Inr (p\<lparr>tp_threads := tp_threads p @ [t\<lparr>lt_thread := ?t, lt_loop := Some (lw_next w)\<rparr>],
        tp_loops := tp_loops p @ [lw_next w]\<rparr>, ?w5)"
    using t st 4(1) nxt(1) w1(2)
    by (simp add: pool_start_thread_def startLoop_def threadFunc_begin_def)
  ultimately show ?thesis
    using 4(4-6) 5 nxt by (intro that [where w' = ?w5]) (simp_all add: w1(1))
qed

lemma pool_threads_setup:
  fixes w :: "'a conn_world_scheme"
  assumes "setup_inv w" and os: "opens os" "fresh_descriptors os"
  shows "\<exists>p' w'. foldE (pool_start_thread False os on_init None) is (p, w) = Inr (p', w') \<and>
      setup_inv w' \<and> stays w w' \<and> lw_loops w \<subseteq>\<^sub>m lw_loops w' \<and> cw_channels w \<subseteq>\<^sub>m cw_channels w' \<and>
      length (tp_loops p') = length (tp_loops p) + length is \<and>
      set (tp_loops p') \<subseteq> set (tp_loops p) \<union> dom (lw_loops w') \<and>
      tp_baseLoop p' = tp_baseLoop p \<and> tp_next p' = tp_next p \<and>
      loop_world.more w' = loop_world.more w \<and> io_tid w' = io_tid w"
  using assms(1)
proof (induction "is" arbitrary: p w)
  case Nil
  then show ?case by auto
next
  case (Cons i "is")
  obtain t l lp w1 where w1: "pool_start_thread False os on_init None i (p, w) =
      Inr (p\<lparr>tp_threads := tp_threads p @ [t], tp_loops := tp_loops p @ [l]\<rparr>, w1)"
      "setup_inv w1" "stays w w1" "lw_loops w1 = (lw_loops w)(l \<mapsto> lp)" "lw_loops w l = None"
      "loop_world.more w1 = loop_world.more w" "io_tid w1 = io_tid w" "cw_channels w \<subseteq>\<^sub>m cw_channels w1"
    by (rule pool_thread_setup [OF Cons.prems os])
  let ?p = "p\<lparr>tp_threads := tp_threads p @ [t], tp_loops := tp_loops p @ [l]\<rparr>"
  from Cons.IH [OF w1(2), of ?p] obtain p' w' where
    w': "foldE (pool_start_thread False os on_init None) is (?p, w1) = Inr (p', w')"
      "setup_inv w'" "stays w1 w'" "lw_loops w1 \<subseteq>\<^sub>m lw_loops w'" "cw_channels w1 \<subseteq>\<^sub>m cw_channels w'"
      "length (tp_loops p') = length (tp_loops ?p) + length is"
      "set (tp_loops p') \<subseteq> set (tp_loops ?p) \<union> dom (lw_loops w')"
      "tp_baseLoop p' = tp_baseLoop ?p" "tp_next p' = tp_next ?p"
      "loop_world.more w' = loop_world.more w1" "io_tid w' = io_tid w1"
    by blast
  have "lw_loops w \<subseteq>\<^sub>m lw_loops w1" using w1(4,5) by (auto simp: map_le_def)
  then have loops: "lw_loops w \<subseteq>\<^sub>m lw_loops w'" using w'(4) by (rule map_le_trans)
  have "l \<in> dom (lw_loops w')" using map_le_implies_dom_le [OF w'(4)] w1(4) by auto
  then have "set (tp_loops p') \<subseteq> set (tp_loops p) \<union> dom (lw_loops w')" using w'(7) by auto
  moreover have "cw_channels w \<subseteq>\<^sub>m cw_channels w'" by (rule map_le_trans [OF w1(8) w'(5)])
  moreover have "stays w w'" by (rule stays_trans [OF w1(3) w'(3)])
  ultimately show ?case using w1(1,6,7) w' loops
    by (intro exI [of _ p'] exI [of _ w']) simp
qed

section \<open>The server is set up\<close>

lemma setup_put_server:
  "setup_inv w \<Longrightarrow> setup_inv (put_server s w) \<and> stays w (put_server s w)"
  by (rule same_setup) simp_all

lemma TcpServer_new_setup:
  fixes w :: "'a server_world_scheme"
  assumes inv: "setup_inv w" and os: "opens os" "fresh_descriptors os" and l: "lw_loops w l \<noteq> None" "l \<noteq> 0"
  obtains w' s ch where "TcpServer_new os l addr name option w = Inr w'" and "setup_inv w'" and "stays w w'"
    and "sw_server w' = Some s" and "lw_loops w' = lw_loops w" and "io_tid w' = io_tid w"
    and "tw_conns w' = tw_conns w"
    and "cw_channels w' (ac_channel (sv_acceptor s)) = Some ch" and "ch_loop ch = l"
    and "ch_fd ch = ac_socket (sv_acceptor s)" and "ch_ReadCallBack ch = Some AcceptorRead"
    and "ac_callback (sv_acceptor s)" and "sv_threadPool s = EventLoopThreadPool_new l name" and "sv_loop s = l"
    and "sv_started s = 0" and "sv_connections s = Map.empty" and "sv_nextConnId s = 1"
proof -
  obtain t where t: "toInPort addr = Inr t" using toInPort_total by blast
  obtain a w1 ch where a: "Acceptor_new os l addr True w = (a, w1)" "setup_inv w1" "stays w w1"
      "cw_channels w1 = (cw_channels w)(ac_channel a \<mapsto> ch)" "ch_loop ch = l" "ch_fd ch = ac_socket a"
      "ch_ReadCallBack ch = Some AcceptorRead" "lw_loops w1 = lw_loops w"
      "loop_world.more w1 = loop_world.more w" "io_tid w1 = io_tid w"
    by (rule Acceptor_new_setup [OF inv os l(1)])
  let ?s = "\<lparr>sv_loop = l, sv_ipPort = t, sv_name = name, sv_acceptor = setNewConnectionCallback a,
              sv_threadPool = EventLoopThreadPool_new l name,
              sv_connectionCallback = None, sv_messageCallback = None,
              sv_writeCompleteCallback = None, sv_threadInitCallback = None,
              sv_started = 0, sv_nextConnId = 1, sv_connections = Map.empty\<rparr>"
  have run: "TcpServer_new os l addr name option w = Inr (put_server ?s w1)"
    using t a(1) l(2) by (simp add: TcpServer_new_def)
  have 1: "setup_inv (put_server ?s w1) \<and> stays w1 (put_server ?s w1)" by (rule setup_put_server [OF a(2)])
  have "stays w (put_server ?s w1)" by (rule stays_trans [OF a(3) conjunct2 [OF 1]])
  then show ?thesis
    by (rule that [OF run conjunct1 [OF 1], of ?s ch])
      (use a in \<open>simp_all add: setNewConnectionCallback_def conn_more\<close>)
qed

text \<open>\<open>start()\<close> makes the threads and then listens, in the thread of the base loop.\<close>

lemma server_listen_result:
  assumes inv: "program_inv w" and s: "sw_server w = Some s"
    and ch: "cw_channels w (ac_channel (sv_acceptor s)) = Some ch"
  obtains w' ch' where "server_listen os w = Inr w'" and "program_inv w'" and "stays w w'"
    and "sw_server w' = Some (s\<lparr>sv_acceptor := (sv_acceptor s)\<lparr>ac_listening := True\<rparr>\<rparr>)"
    and "cw_channels w' (ac_channel (sv_acceptor s)) = Some ch'" and "isReading ch'" and "ch_index ch' = KAdded"
    and "ch_ReadCallBack ch' = ch_ReadCallBack ch" and "io_tid w' = io_tid w" and "tw_conns w' = tw_conns w"
    and "map_option (\<lambda>lp. (el_threadId lp, el_pendingFunctors lp)) \<circ> lw_loops w' =
      map_option (\<lambda>lp. (el_threadId lp, el_pendingFunctors lp)) \<circ> lw_loops w"
proof -
  let ?v = "socket_listen os (ac_socket (sv_acceptor s)) w" and ?c = "ac_channel (sv_acceptor s)"
  have q: "quiet_step w ?v" by (rule listen_quiet)
  then have v: "cw_channels ?v = cw_channels w" "lw_loops ?v = lw_loops w" "loop_world.more ?v = loop_world.more w"
      "io_tid ?v = io_tid w"
    by (simp_all add: quiet_step_def loop_more)
  have "program_inv ?v" using server_safe.quiet [OF q] inv by (simp add: server_safe_def)
  then have li: "loops_inv ?v" by (simp add: program_inv_def world_inv_def)
  have ch': "cw_channels ?v ?c = Some ch" using ch v by simp
  let ?ch = "set_index (updated_index (add_read ch)) (add_read ch)"
  obtain w1 lp p where w1: "change_events add_read os ?c ?v = Inr w1"
      "cw_channels w1 = (cw_channels ?v)(?c \<mapsto> ?ch)" "loop_world.more w1 = loop_world.more ?v"
      "lw_loops ?v (ch_loop ch) = Some lp" "lw_loops w1 = (lw_loops ?v)(ch_loop ch \<mapsto> lp\<lparr>el_poller := p\<rparr>)"
      "io_tid w1 = io_tid ?v"
    by (rule change_events_result [where change = add_read, OF li ch' add_read_def, of os])
  let ?w' = "put_server (s\<lparr>sv_acceptor := (sv_acceptor s)\<lparr>ac_listening := True\<rparr>\<rparr>) w1"
  have run: "server_listen os w = Inr ?w'"
    using s w1(1) by (simp add: server_listen_def the_server_def acceptor_listen_def enableReading_def)
  have safe: "program_inv ?w' \<and> stays w ?w'"
    using server_listen_safe [OF run] inv by (simp add: server_safe_def)
  have "\<not> isNoneEvent (add_read ch)"
    using mask_updates(1) [of ch] by (auto simp: isNoneEvent_def isReading_def KNoneEvent_def)
  then have idx: "updated_index (add_read ch) = KAdded" by (simp add: updated_index_def)
  have "map_option (\<lambda>lp. (el_threadId lp, el_pendingFunctors lp)) \<circ> lw_loops ?w' =
      map_option (\<lambda>lp. (el_threadId lp, el_pendingFunctors lp)) \<circ> lw_loops w"
    using w1(4,5) v(2) by (auto simp: fun_eq_iff)
  moreover have "isReading ?ch" by simp
  moreover have "ch_index ?ch = KAdded" "ch_ReadCallBack ?ch = ch_ReadCallBack ch"
    by (simp_all add: set_index_def idx) (simp add: add_read_def)
  ultimately show ?thesis
    using safe w1 v by (intro that [OF run, where ch' = ?ch]) (simp_all add: conn_more)
qed

text \<open>The state in which the process starts \<open>main\<close>.\<close>

definition process_start :: "int \<Rightarrow> server_world" where
  "process_start tid = \<lparr>io_trace = [], io_errno = 0, io_log = [], io_tid = tid, cw_channels = Map.empty,
     lw_loops = Map.empty, lw_loopInThisThread = Map.empty, lw_next = 1, lw_numCreated = 0,
     tw_conns = Map.empty, tw_strs = Map.empty, sw_server = None\<rparr>"

lemma process_start_inv: "setup_inv (process_start tid)"
  by (simp add: setup_inv_def world_inv_def process_start_def addr_ok_def loops_inv_def conns_inv_def fds_inv_def
      epolls_inv_def poller_at_def)

text \<open>
  C2. The whole of \<open>main\<close> before its loop: when the kernel gives a new descriptor for every open, it
  returns with the invariant of the program established: three loops (the base loop in the main
  thread, two of the pool), the listening socket registered for reading with the accepting
  callback, the acceptor listening, no connection yet, and every channel, poller and interest list
  in agreement.
\<close>

theorem main_setup_establishes:
  assumes os: "opens os" "fresh_descriptors os"
  shows "\<exists>l w s lp ch. main_setup False os inet_addr (process_start tid) = Inr (l, w) \<and> program_inv w \<and>
      sw_server w = Some s \<and> sv_loop s = l \<and> lw_loops w l = Some lp \<and> el_threadId lp = tid \<and> io_tid w = tid \<and> el_pendingFunctors lp = [] \<and>
      length (tp_loops (sv_threadPool s)) = 2 \<and> ac_listening (sv_acceptor s) \<and> ac_callback (sv_acceptor s) \<and>
      cw_channels w (ac_channel (sv_acceptor s)) = Some ch \<and> ch_ReadCallBack ch = Some AcceptorRead \<and>
      isReading ch \<and> ch_index ch = KAdded \<and> sv_connections s = Map.empty \<and> tw_conns w = Map.empty"
proof -
  let ?w0 = "process_start tid"
  have w0: "lw_next ?w0 = 1" "lw_loops ?w0 = Map.empty" "io_tid ?w0 = tid" "tw_conns ?w0 = Map.empty"
    by (simp_all add: process_start_def)
  obtain w1 p f where w1: "EventLoop_new False os ?w0 = Inr (lw_next ?w0, w1)" "setup_inv w1" "stays ?w0 w1"
      "lw_loops w1 = (lw_loops ?w0)(lw_next ?w0 \<mapsto> new_loop (io_tid ?w0) p f (lw_next ?w0 + 1))"
      "loop_world.more w1 = loop_world.more ?w0" "io_tid w1 = io_tid ?w0"
    by (rule EventLoop_new_setup [OF process_start_inv os])
  let ?lp = "new_loop tid p f 2"
  have l1: "lw_loops w1 = [1 \<mapsto> ?lp]" using w1(4) by (simp add: w0 numeral_2_eq_2)
  have l1': "lw_loops w1 1 \<noteq> None" "(1 :: nat) \<noteq> 0" by (simp_all add: l1)
  obtain w2 s ch where w2: "TcpServer_new os 1 (InetAddress_new inet_addr 9998 ''127.0.0.1'') ''EchoServer'' False w1 = Inr w2"
      "setup_inv w2" "sw_server w2 = Some s" "lw_loops w2 = lw_loops w1" "io_tid w2 = io_tid w1"
      "tw_conns w2 = tw_conns w1" "cw_channels w2 (ac_channel (sv_acceptor s)) = Some ch"
      "ch_ReadCallBack ch = Some AcceptorRead" "ac_callback (sv_acceptor s)"
      "sv_threadPool s = EventLoopThreadPool_new 1 ''EchoServer''" "sv_loop s = 1" "sv_started s = 0"
      "sv_connections s = Map.empty"
    by (rule TcpServer_new_setup [OF w1(2) os l1'])
  let ?s1 = "setThreadNum 2 (setServerCallbacks (Some (UserFn 0)) (Some (UserFn 1)) None None s)"
  let ?w3 = "put_server ?s1 w2"
  have 3: "setup_inv ?w3" using setup_put_server [OF w2(2)] by blast
  have e: "EchoServer_new os 1 (InetAddress_new inet_addr 9998 ''127.0.0.1'') ''EchoServer'' w1 = Inr ?w3"
    using w2(1,3) by (simp add: EchoServer_new_def the_server_def)
  let ?s2 = "?s1\<lparr>sv_started := 1\<rparr>"
  let ?w4 = "put_server ?s2 ?w3"
  have 4: "setup_inv ?w4" using setup_put_server [OF 3] by blast
  let ?p1 = "(sv_threadPool ?s1)\<lparr>tp_started := True\<rparr>"
  have p1: "tp_loops ?p1 = []" "tp_baseLoop ?p1 = 1" "tp_next ?p1 = 0" "tp_numThread (sv_threadPool ?s1) = 2"
    by (simp_all add: setThreadNum_def setServerCallbacks_def w2(10) EventLoopThreadPool_new_def pool_setThreadNum_def)
  obtain p2 w5 where w5: "foldE (pool_start_thread False os (\<lambda>f l w. Inl BadFunctionCall) None) [0..1] (?p1, ?w4) = Inr (p2, w5)"
      "setup_inv w5" "lw_loops ?w4 \<subseteq>\<^sub>m lw_loops w5" "cw_channels ?w4 \<subseteq>\<^sub>m cw_channels w5"
      "length (tp_loops p2) = length (tp_loops ?p1) + length [0..1 :: int]"
      "set (tp_loops p2) \<subseteq> set (tp_loops ?p1) \<union> dom (lw_loops w5)" "tp_baseLoop p2 = tp_baseLoop ?p1"
      "tp_next p2 = tp_next ?p1" "loop_world.more w5 = loop_world.more ?w4" "io_tid w5 = io_tid ?w4"
    using pool_threads_setup [OF 4 os, of "\<lambda>f l w. Inl BadFunctionCall" "[0..1]" ?p1] by blast
  let ?s3 = "?s2\<lparr>sv_threadPool := p2\<rparr>"
  let ?w6 = "put_server ?s3 w5"
  have server5: "sw_server w5 = Some ?s2" using w5(9) by (simp add: conn_more server_more)
  have base: "lw_loops w5 1 = Some ?lp" using w5(3) by (auto simp: map_le_def w2(4) l1 domIff)
  have tids: "io_tid w5 = tid" "el_threadId ?lp = tid" using w5(10) w2(5) w1(6) w0 by (simp_all add: new_loop_def)
  have upto: "[0..tp_numThread (sv_threadPool ?s1) - 1] = [0..1 :: int]" unfolding p1(4) by simp
  have pool: "pool_start False os (\<lambda>f l w. Inl BadFunctionCall) None (sv_threadPool ?s1) ?w4 = Inr (p2, w5)"
    unfolding pool_start_def upto using w5(1) by simp
  have start: "EchoServer_start False os ?w3 = server_listen os ?w6"
    using pool base tids w2(11,12) server5
    by (simp add: EchoServer_start_def server_start_def the_server_def setThreadNum_def setServerCallbacks_def
        atomic_increment_def runInLoop_def isInLoopThread_def)
  have 6: "setup_inv ?w6" using setup_put_server [OF w5(2)] by blast
  have "pool_inv p2" using w5(5,8) p1(1,3) by (simp add: pool_inv_def)
  moreover have "set (tp_baseLoop p2 # tp_loops p2) \<subseteq> dom (lw_loops w5)" using w5(6,7) p1 base by auto
  ultimately have "server_ok ?w6 ?s3"
    using w2(9,13) by (simp add: server_ok_def setThreadNum_def setServerCallbacks_def)
  then have inv6: "program_inv ?w6" using setup_invD(1) [OF 6] by (simp add: program_inv_def)
  have acc: "sv_acceptor ?s3 = sv_acceptor s" by (simp add: setThreadNum_def setServerCallbacks_def)
  have ch6: "cw_channels ?w6 (ac_channel (sv_acceptor ?s3)) = Some ch"
  proof -
    have "ac_channel (sv_acceptor s) \<in> dom (cw_channels ?w4)" using w2(7) by auto
    with w5(4) have "cw_channels ?w4 (ac_channel (sv_acceptor s)) = cw_channels w5 (ac_channel (sv_acceptor s))"
      unfolding map_le_def by blast
    with w2(7) show ?thesis unfolding acc by simp
  qed
  obtain w7 ch' where w7: "server_listen os ?w6 = Inr w7" "program_inv w7"
      "sw_server w7 = Some (?s3\<lparr>sv_acceptor := (sv_acceptor ?s3)\<lparr>ac_listening := True\<rparr>\<rparr>)"
      "cw_channels w7 (ac_channel (sv_acceptor ?s3)) = Some ch'" "isReading ch'" "ch_index ch' = KAdded"
      "ch_ReadCallBack ch' = ch_ReadCallBack ch" "io_tid w7 = io_tid ?w6" "tw_conns w7 = tw_conns ?w6"
      "map_option (\<lambda>lp. (el_threadId lp, el_pendingFunctors lp)) \<circ> lw_loops w7 =
        map_option (\<lambda>lp. (el_threadId lp, el_pendingFunctors lp)) \<circ> lw_loops ?w6"
    by (rule server_listen_result [OF inv6 _ ch6, of os]) simp
  have run: "main_setup False os inet_addr ?w0 = Inr (1, w7)"
    using w1(1) e start w7(1) by (simp add: main_setup_def w0)
  have "map_option (\<lambda>lp. (el_threadId lp, el_pendingFunctors lp)) (lw_loops w7 1) = Some (tid, [])"
    using fun_cong [OF w7(10), of 1] base tids by (simp add: new_loop_def)
  then obtain lp7 where lp7: "lw_loops w7 1 = Some lp7" "el_threadId lp7 = tid" "el_pendingFunctors lp7 = []" by auto
  have conns: "tw_conns w7 = Map.empty" using w7(9) w5(9) w2(6) w1(5) w0 by (simp add: conn_more)
  show ?thesis
    using run w7 lp7 tids conns w5(5) w2(8,9,11,13) acc p1(1)
    by (intro exI [of _ "1 :: nat"] exI [of _ w7] exI [of _ "?s3\<lparr>sv_acceptor := (sv_acceptor ?s3)\<lparr>ac_listening := True\<rparr>\<rparr>"]
        exI [of _ lp7] exI [of _ ch']) (simp add: setThreadNum_def setServerCallbacks_def)
qed

text \<open>The concrete system gives new descriptors.\<close>

lemma open_fds_opened: "f \<in> open_fds h \<Longrightarrow> \<exists>k. Opened k f \<in> set h"
proof (induction h rule: rev_induct)
  case Nil
  then show ?case by (simp add: open_fds_def)
next
  case (snoc ev h)
  have "f \<in> fd_step ev S \<Longrightarrow> f \<in> S \<or> (\<exists>k. ev = Opened k f)" for S
    by (cases "(ev, S)" rule: fd_step.cases) auto
  with snoc show ?case by fastforce
qed

lemma next_fd_above: "Opened k f \<in> set h \<Longrightarrow> f < int (next_fd h)"
  by (induction h rule: next_fd.induct) auto

lemma lab_os_descriptors:
  "opens (lab_os incoming n)" "fresh_descriptors (lab_os incoming n)" "reports_registered (lab_os incoming n)"
  using open_fds_opened next_fd_above
  by (force simp: opens_def fresh_descriptors_def reports_registered_def lab_os_def)+

theorem main_setup_establishes_witness:
  "\<exists>l w s. main_setup False (lab_os [] 8) (\<lambda>_. 16777343) (process_start 7) = Inr (l, w) \<and> program_inv w \<and>
     sw_server w = Some s \<and> length (tp_loops (sv_threadPool s)) = 2"
  using main_setup_establishes [OF lab_os_descriptors(1,2) [of "[]" 8], where inet_addr = "\<lambda>_. 16777343" and tid = 7]
  by blast

section \<open>Rounds of the running server\<close>



end
