(* ===== verification/Server_Close.thy ===== *)
theory Server_Close
  imports Server_Setup
begin

text \<open>
  The life of a connection from the end of file to its destruction: what the handler of the event does
  (\<open>eof_event\<close>), what the queued destruction does (\<open>destroy_task\<close>), what happens with the last
  reference (\<open>last_reference\<close>), and the round of a loop that contains them all, for a server and a
  connection on the same loop. The witness runs the code from the construction of the loop, over the
  accepting of a connection, to the poll that reports the end of file.
\<close>

section \<open>The end of file of a peer\<close>

lemma eof_revents:
  assumes "ch_revents ch = EPOLLIN" and "ch_ReadCallBack ch = Some cb"
  shows "due_callbacks ch = [cb]"
proof -
  have "\<not> error_due EPOLLIN" "read_due EPOLLIN" "\<not> write_due EPOLLIN" "\<not> close_due EPOLLIN"
    by (simp_all add: mask_bits)
  then show ?thesis using assms by (simp add: due_callbacks_def)
qed

lemma print_addresses_bind [simp]: "bindE (print_addresses conn) (\<lambda>_. r) = r"
  using print_addresses_total [of conn] by auto

lemma onConnection_disconnected:
  assumes "tw_conns w c = Some conn" and "tc_state conn = kDisconnected"
  shows "onConnection os c w = Inr w"
  using assms by (simp add: onConnection_def connected_def shutdown_def)

text \<open>
  The handler of the event: the connection is disconnected, its channel disabled, and the connection
  callback has run; the close callback is what is left.
\<close>

lemma eof_event:
  fixes w :: "'a server_world_scheme"
  assumes inv: "addr_ok w" and ok: "conn_ok w c conn ch" and home: "tc_loop conn = l"
    and ch: "ch_tied ch" "ch_tie ch = Some c" "ch_ReadCallBack ch = Some (ConnRead c)" "ch_revents ch = EPOLLIN"
    and cbs: "tc_connectionCallback conn = Some (UserFn 0)" "tc_closeCallback conn = Some ServerRemoveConnection"
    and lp: "lw_loops w l = Some lp"
    and small: "length (buf_data (tc_inputBuffer conn)) + 65536 \<le> vec_max"
    and eof: "os_read os (io_trace w) (tc_socket conn) (read_room (tc_inputBuffer conn)) = Inr []"
  obtains v inb ch' q evs where
    "handleEvent conn_alive (run_callback (echo_callbacks os) os) (tc_channel conn) t w = removeConnection os c v"
    and "tw_conns v = (tw_conns w)(c \<mapsto> conn\<lparr>tc_inputBuffer := inb, tc_state := kDisconnected\<rparr>)"
    and "cw_channels v = (cw_channels w)(tc_channel conn \<mapsto> ch')" and "ch_loop ch' = l"
    and "lw_loops v = (lw_loops w)(l \<mapsto> lp\<lparr>el_poller := q\<rparr>)"
    and "sw_server v = sw_server w" and "loops_inv v" and "lw_next v = lw_next w" and "io_tid v = io_tid w"
    and "io_trace v = io_trace w @ evs" and "closed_fds evs = []"
proof -
  let ?cbs = "server_callbacks (echo_callbacks os) os" and ?f = "tc_socket conn"
  have alive: "conn_alive w c" using conn_okD(2) [OF ok] by (simp add: conn_alive_def)
  have unit: "bindE r (foldE f []) = r" for r :: "cpp_error + 's" and f :: "'x \<Rightarrow> 's \<Rightarrow> cpp_error + 's"
    by (cases r) simp_all
  have disp: "handleEvent conn_alive (run_callback (echo_callbacks os) os) (tc_channel conn) t w =
      handleRead ?cbs os t c w"
    using server_program.dispatch_result [OF server_program.intro [OF echo_callbacks_ok] inv conn_okD(3) [OF ok]]
      conn_okD(3) [OF ok] ch alive eof_revents [OF ch(4,3)]
    by (simp add: handleEvent_def unit)
  have nil: "[] = take (read_room (tc_inputBuffer conn)) ([] :: char list)" by simp
  obtain inb where inb: "conn_ok (put_conn c (conn\<lparr>tc_inputBuffer := inb\<rparr>) (note_event (Received ?f []) w))
        c (conn\<lparr>tc_inputBuffer := inb\<rparr>) ch"
      and read: "handleRead ?cbs os t c w =
        (let w1 = put_conn c (conn\<lparr>tc_inputBuffer := inb\<rparr>) (note_event (Received ?f []) w)
         in if ([] :: char list) = [] then handleClose ?cbs os c w1
            else case tc_messageCallback conn of
                   None \<Rightarrow> Inl BadFunctionCall | Some f \<Rightarrow> on_message ?cbs f c t w1)"
    by (rule handleRead_delivery [OF ok small eof nil, of ?cbs t])
  let ?conn1 = "conn\<lparr>tc_inputBuffer := inb\<rparr>"
  let ?w1 = "put_conn c ?conn1 (note_event (Received ?f []) w)"
  let ?ch = "set_index (updated_index (del_all ch)) (del_all ch)"
  obtain w2 e r where w2: "handleClose ?cbs os c ?w1 = bindE (invoke_connection ?cbs c w2) (invoke_close ?cbs c)"
      "conn_ok w2 c (?conn1\<lparr>tc_state := kDisconnected\<rparr>) ?ch"
      "io_trace w2 = io_trace ?w1 @ [Did (EpollCtl e (update_request (del_all ch)) (tc_socket ?conn1) KNoneEvent
        (tc_channel ?conn1)) r]"
      "io_tid w2 = io_tid ?w1" "tw_conns w2 = (tw_conns ?w1)(c \<mapsto> ?conn1\<lparr>tc_state := kDisconnected\<rparr>)"
      "cw_channels w2 = (cw_channels ?w1)(tc_channel ?conn1 \<mapsto> ?ch)"
      "lw_next w2 = lw_next ?w1" "conn_world.more w2 = conn_world.more ?w1"
      "\<exists>lp q. lw_loops ?w1 (tc_loop ?conn1) = Some lp \<and>
        lw_loops w2 = (lw_loops ?w1)(tc_loop ?conn1 \<mapsto> lp\<lparr>el_poller := q\<rparr>)"
    by (rule handleClose_result [OF inb, of ?cbs os]) blast
  let ?conn2 = "?conn1\<lparr>tc_state := kDisconnected\<rparr>"
  obtain q where q: "lw_loops w2 = (lw_loops w)(l \<mapsto> lp\<lparr>el_poller := q\<rparr>)" using w2(9) home lp(1) by auto
  have c2: "tw_conns w2 c = Some ?conn2" using w2(5) by simp
  have "on_connection ?cbs (UserFn 0) c w2 = onConnection os c w2"
    by (simp add: server_callbacks_def echo_callbacks_def)
  then have ic: "invoke_connection ?cbs c w2 = Inr w2"
    using c2 cbs(1) onConnection_disconnected [OF c2] by (simp add: invoke_connection_def invoke_def)
  have close: "invoke_close ?cbs c w2 = removeConnection os c w2"
    using c2 cbs(2) by (simp add: invoke_close_def invoke_def server_callbacks_def)
  have run: "handleEvent conn_alive (run_callback (echo_callbacks os) os) (tc_channel conn) t w = removeConnection os c w2"
    using disp read w2(1) ic close by simp
  let ?evs = "[Received ?f [], Did (EpollCtl e (update_request (del_all ch)) ?f KNoneEvent (tc_channel conn)) r]"
  show ?thesis
  proof (rule that [OF run])
    show "tw_conns w2 = (tw_conns w)(c \<mapsto> conn\<lparr>tc_inputBuffer := inb, tc_state := kDisconnected\<rparr>)"
      using w2(5) by simp
    show "cw_channels w2 = (cw_channels w)(tc_channel conn \<mapsto> ?ch)" using w2(6) by simp
    show "ch_loop ?ch = l" using conn_okD(4) [OF ok] home by (simp add: set_index_def del_all_def)
    show "lw_loops w2 = (lw_loops w)(l \<mapsto> lp\<lparr>el_poller := q\<rparr>)" by (rule q)
    show "sw_server w2 = sw_server w" using w2(8) by (simp add: server_more)
    show "loops_inv w2" by (rule conn_okD(1) [OF w2(2)])
    show "lw_next w2 = lw_next w" "io_tid w2 = io_tid w" using w2(4,7) by simp_all
    show "io_trace w2 = io_trace w @ ?evs" using w2(3) by simp
    show "closed_fds ?evs = []" by (simp add: closed_fds_def)
  qed
qed

text \<open>The task: the connection is taken out of its loop.\<close>

lemma destroy_task:
  fixes w :: "'a server_world_scheme"
  assumes inv: "loops_inv w" and conn: "tw_conns w c = Some conn" "tc_state conn = kDisconnected"
    and ch: "cw_channels w (tc_channel conn) = Some ch" "ch_loop ch = l"
    and lp: "lw_loops w l = Some lp" "el_pendingFunctors lp = [ConnectDestroyed c]"
  obtains w' q evs where "doPendingFunctors (run_task user os) l w = Inr w'"
    and "tw_conns w' = tw_conns w" and "cw_channels w' = (cw_channels w)(tc_channel conn \<mapsto> set_index KNew ch)"
    and "lw_loops w' = (lw_loops w)(l \<mapsto> lp\<lparr>el_poller := q, el_pendingFunctors := [], el_callingPendingFunctors := False\<rparr>)"
    and "sw_server w' = sw_server w" and "lw_next w' = lw_next w" and "io_trace w' = io_trace w @ evs"
    and "closed_fds evs = []"
proof -
  let ?lp1 = "lp\<lparr>el_callingPendingFunctors := True, el_pendingFunctors := []\<rparr>"
  let ?w1 = "put_loop l ?lp1 w"
  have inv1: "loops_inv ?w1"
    by (rule loops_inv_frame [OF inv, where evs = "[]"]) (use lp(1) in \<open>auto simp: same_pollers_def\<close>)
  have ch1: "cw_channels ?w1 (tc_channel conn) = Some ch" using ch by simp
  obtain w2 lp2 q evs where w2: "channel_remove os (tc_channel conn) ?w1 = Inr w2"
      "cw_channels w2 = (cw_channels ?w1)(tc_channel conn \<mapsto> set_index KNew ch)"
      "lw_loops ?w1 (ch_loop ch) = Some lp2" "lw_loops w2 = (lw_loops ?w1)(ch_loop ch \<mapsto> lp2\<lparr>el_poller := q\<rparr>)"
      "lw_next w2 = lw_next ?w1" "loop_world.more w2 = loop_world.more ?w1"
      "io_trace w2 = io_trace ?w1 @ evs" "\<forall>ev \<in> set evs. \<exists>e op f m d r. ev = Did (EpollCtl e op f m d) r"
    by (rule channel_remove_result [OF inv1 ch1, of os])
  have loops: "lw_loops w2 = (lw_loops w)(l \<mapsto> ?lp1\<lparr>el_poller := q\<rparr>)" using w2(3,4) ch(2) by simp
  have conn1: "tw_conns ?w1 c = Some conn" using conn(1) by simp
  have task: "run_task user os (ConnectDestroyed c) ?w1 = Inr w2"
    using conn1 conn(2) w2(1) by (simp add: connectDestroyed_def)
  let ?w3 = "put_loop l ((?lp1\<lparr>el_poller := q\<rparr>)\<lparr>el_callingPendingFunctors := False\<rparr>) w2"
  have run: "doPendingFunctors (run_task user os) l w = Inr ?w3"
    using lp task loops by (simp add: doPendingFunctors_def del: run_task.simps)
  have "closed_fds evs = []" using w2(8)
    by (induction evs) (auto simp: closed_fds_def)
  moreover have "lw_loops ?w3 = (lw_loops w)(l \<mapsto>
      lp\<lparr>el_poller := q, el_pendingFunctors := [], el_callingPendingFunctors := False\<rparr>)"
    using loops by (cases lp) simp
  ultimately show ?thesis
    using w2(2,5-7) by (intro that [OF run, where q = q]) (simp_all add: conn_more server_more)
qed

lemma filter_single: "c < n \<Longrightarrow> filter (\<lambda>d. d = c) [0..<n] = [c]"
proof (induction n)
  case (Suc n)
  then show ?case by (cases "c = n") (auto simp: filter_empty_conv)
qed simp

text \<open>
  The end: the queued destruction holds the last reference of a connection that is out of the map;
  when it has run, the connection is destroyed and its descriptor closed, and no other.
\<close>

lemma last_reference:
  fixes w :: "'a server_world_scheme"
  assumes inv: "program_inv w" and user: "callbacks_in server_safe user"
    and conn: "tw_conns w c = Some conn" "tc_state conn = kDisconnected"
    and ch: "cw_channels w (tc_channel conn) = Some ch" "ch_loop ch = l"
    and lp: "lw_loops w l = Some lp" "el_pendingFunctors lp = [ConnectDestroyed c]"
    and s: "sw_server w = Some s" "sv_connections s (tc_name conn) = None"
    and others: "\<And>d k. tw_conns w d = Some k \<Longrightarrow> d \<noteq> c \<Longrightarrow> sv_connections s (tc_name k) = Some d"
    and free: "\<And>k t. k \<noteq> l \<Longrightarrow> t \<in> set (pending k w) \<Longrightarrow> task_owns t \<noteq> Some c"
  obtains v w' evs where "doPendingFunctors (run_task user os) l w = Inr v" and "release_unowned os v = Inr w'"
    and "program_inv w'" and "tw_conns w' = (tw_conns w)(c := None)" and "sw_server w' = Some s"
    and "pending l w' = []" and "io_trace w' = io_trace w @ evs" and "closed_fds evs = [tc_socket conn]"
proof -
  have li: "loops_inv w" using inv by (simp add: program_inv_def world_inv_def)
  obtain v q evs where v: "doPendingFunctors (run_task user os) l w = Inr v" "tw_conns v = tw_conns w"
      "cw_channels v = (cw_channels w)(tc_channel conn \<mapsto> set_index KNew ch)"
      "lw_loops v = (lw_loops w)(l \<mapsto> lp\<lparr>el_poller := q, el_pendingFunctors := [], el_callingPendingFunctors := False\<rparr>)"
      "sw_server v = sw_server w" "lw_next v = lw_next w" "io_trace v = io_trace w @ evs" "closed_fds evs = []"
    by (rule destroy_task [OF li conn ch lp, of user os])
  have invv: "program_inv v"
    using doPendingFunctors_safe [OF run_task_safe [OF user] v(1)] inv by (simp add: server_safe_def)
  have srv: "sw_server v = Some s" using v(5) s(1) by simp
  have pend: "pending k v = (if k = l then [] else pending k w)" for k using v(4) by (simp add: pending_def)
  have owned_other: "owned v d" if "tw_conns v d = Some k" "d \<noteq> c" for d k
    using others [of d k] that srv v(2) by (simp add: owned_def)
  have "\<not> owned v c" using srv v(2) conn(1) s(2) free by (auto simp: owned_def pend list_ex_iff)
  then have unowned: "unowned v = (\<lambda>d. d = c)"
    using owned_other v(2) conn(1) by (auto simp: unowned_def fun_eq_iff)
  have "retired v conn" using v(3) by (simp add: retired_def set_index_def)
  then have own: "owners_inv v"
    using owned_other v(2) conn(1) unfolding owners_inv_def by (metis option.inject)
  obtain w' evs' where w': "release_unowned os v = Inr w'" "program_inv w'"
      "tw_conns w' = (\<lambda>d. if unowned v d then None else tw_conns v d)" "sw_server w' = sw_server v"
      "lw_loops w' = lw_loops v" "io_trace w' = io_trace v @ evs'"
      "closed_fds evs' = map (socket_of v) (filter (unowned v) [0..<lw_next v])"
    by (rule release_unowned_result [OF invv own, of os])
  have "c < lw_next v" using invv conn(1) v(2) by (auto simp: program_inv_def world_inv_def conns_inv_def)
  then have "closed_fds evs' = [tc_socket conn]"
    using w'(7) v(2) conn(1) by (simp add: unowned filter_single socket_of_def)
  moreover have "tw_conns w' = (tw_conns w)(c := None)" using w'(3) v(2) by (auto simp: unowned fun_eq_iff)
  moreover have "pending l w' = []" using pend [of l] w'(5) by (simp add: pending_def)
  ultimately show ?thesis
    using that [OF v(1) w'(1,2), of "evs @ evs'"] w'(4,6) v(7,8) srv by simp
qed

text \<open>When the map names every connection, it names the others after one was erased.\<close>

lemma map_of_others:
  assumes "\<And>d k. tw_conns w d = Some k \<Longrightarrow> sv_connections s (tc_name k) = Some d"
    and "tw_conns w c = Some conn" and "tw_conns w d = Some k" and "d \<noteq> c"
  shows "((sv_connections s)(tc_name conn := None)) (tc_name k) = Some d"
  using assms(1) [OF assms(2)] assms(1) [OF assms(3)] assms(4) by auto


section \<open>A concrete end of file\<close>

text \<open>A system that reports descriptor \<open>f\<close> as readable once it is registered, and delivers its end of file.\<close>

definition lab_eof :: "int \<Rightarrow> os" where
  "lab_eof f = (lab_os [] 8)\<lparr>os_wait := (\<lambda>h e n.
     case interest e h f of None \<Rightarrow> Inr [] | Some (m, c) \<Rightarrow> Inr [(c, EPOLLIN)])\<rparr>"

lemma lab_eof_simps:
  "os_open (lab_eof f) h k = Inr (next_fd h)" "os_call (lab_eof f) h x = None" "os_read (lab_eof f) h g n = Inr []"
  "os_time (lab_eof f) h = 0" "os_write (lab_eof f) h g bs = Inr 8" "os_spawn (lab_eof f) h = 100 + int (length h)" "os_sockname (lab_eof f) h g = Inr \<lparr>sin_family = 2, sin_port = 0, sin_addr = 0\<rparr>"
  "os_wait (lab_eof f) h e n = (case interest e h f of None \<Rightarrow> Inr [] | Some (m, c) \<Rightarrow> Inr [(c, EPOLLIN)])"
  by (simp_all add: lab_eof_def lab_os_def)

lemma lab_eof_ok: "opens (lab_eof f)" "fresh_descriptors (lab_eof f)" "reports_registered (lab_eof f)"
  using lab_os_descriptors(1,2) [of "[]" 8]
  by (auto simp: opens_def fresh_descriptors_def reports_registered_def lab_eof_def split: option.splits)

text \<open>
  A server without pool threads after its start: the loop, the listening socket and an accepted
  socket are open.
\<close>

definition lab_opened :: "cpp_error + server_world" where
  "lab_opened = bindE (EventLoop_new False (lab_eof 6) (process_start 7)) (\<lambda>(l, w).
     Inr (snd (sys_open (lab_eof 6) (Accept4 5) (snd (sys_open (lab_eof 6) StreamSocket (put_server lab_tcp_server w))))))"

definition lab_accepted :: "cpp_error + server_world" where
  "lab_accepted = bindE lab_opened
     (newConnection (server_callbacks (echo_callbacks (lab_eof 6)) (lab_eof 6)) (lab_eof 6) 6 lab_addr)"

lemmas lab_steps = lab_eof_simps EventLoop_new_def newDefaultPoller_def EpollPoller_new_def sys_open_def
  process_start_def createEventfd_def Let_def enableReading_def change_events_def loop_updateChannel_def
  poller_updateChannel_def poller_ctl_def sys_call_def setReadCallback_def note_event_def put_server_def
  put_loop_def Channel_new_def channel_set_index_def add_read_def isNoneEvent_def KNew_def KAdded_def
  KNoneEvent_def KReadEvent_def mask_bits put_channel_def set_index_def

lemma lab_sockets:
  fixes w :: server_world
  assumes inv: "setup_inv w" and os: "opens os" "fresh_descriptors os"
  obtains w' where "snd (sys_open os (Accept4 k) (snd (sys_open os StreamSocket w))) = w'" and "setup_inv w'"
    and "lw_loops w' = lw_loops w" and "tw_conns w' = tw_conns w" and "sw_server w' = sw_server w"
proof -
  obtain g where g: "sys_open os StreamSocket w = (g, note_event (Opened StreamSocket g) w)"
    by (rule sys_open_fresh [OF os])
  let ?v = "note_event (Opened StreamSocket g) w"
  have v: "setup_inv ?v" using quiet_setup [OF inv] by simp
  obtain h where h: "sys_open os (Accept4 k) ?v = (h, note_event (Opened (Accept4 k) h) ?v)"
    by (rule sys_open_fresh [OF os])
  have "setup_inv (note_event (Opened (Accept4 k) h) ?v)" using quiet_setup [OF v] by simp
  then show ?thesis by (rule that [rotated]) (simp_all add: g h loop_more conn_more server_more)
qed

lemma lab_opened_inv:
  obtains w where "lab_opened = Inr w" and "program_inv w" and "(6 :: int) \<in> open_fds (io_trace w)"
    and "fresh_fd 6 w" and "\<forall>l p. poller_at l w = Some p \<longrightarrow> ep_epollfd p \<noteq> 6"
proof -
  obtain w1 p f where w1: "EventLoop_new False (lab_eof 6) (process_start 7 :: server_world) = Inr (1, w1)" "setup_inv w1"
      "lw_loops w1 = [1 \<mapsto> new_loop 7 p f 2]"
      "loop_world.more w1 = loop_world.more (process_start 7)"
    by (rule EventLoop_new_setup [OF process_start_inv [of 7] lab_eof_ok(1,2)])
      (simp add: process_start_def numeral_2_eq_2)
  let ?w2 = "put_server lab_tcp_server w1"
  have 2: "setup_inv ?w2" using setup_put_server [OF w1(2)] by blast
  obtain w4 where w4: "snd (sys_open (lab_eof 6) (Accept4 5) (snd (sys_open (lab_eof 6) StreamSocket ?w2))) = w4"
      "setup_inv w4" "lw_loops w4 = lw_loops ?w2" "tw_conns w4 = tw_conns ?w2" "sw_server w4 = sw_server ?w2"
    by (rule lab_sockets [OF 2 lab_eof_ok(1,2)])
  have run: "lab_opened = Inr w4" using w1(1) w4(1) by (simp add: lab_opened_def)
  have "server_ok w4 lab_tcp_server"
    by (simp add: server_ok_def lab_tcp_server_def pool_inv_def EventLoopThreadPool_new_def w1(3) w4(3))
  then have "program_inv w4" using setup_invD(1) [OF w4(2)] w4(5) by (simp add: program_inv_def)
  moreover have "\<exists>v. lab_opened = Inr v \<and> (6 :: int) \<in> open_fds (io_trace v) \<and> fresh_fd 6 v \<and>
      (\<forall>l p. poller_at l v = Some p \<longrightarrow> ep_epollfd p \<noteq> 6)"
    by (auto simp: lab_opened_def lab_steps open_fds_def fresh_fd_def poller_at_def)
  then obtain v where v: "lab_opened = Inr v" "(6 :: int) \<in> open_fds (io_trace v)" "fresh_fd 6 v"
      "\<forall>l p. poller_at l v = Some p \<longrightarrow> ep_epollfd p \<noteq> 6"
    by blast
  moreover have "v = w4" using trans [OF v(1) [symmetric] run] by (simp only: sum.inject)
  ultimately show ?thesis using that by blast
qed

lemma lab_eof_poll:
  obtains w0 w s conn ch lp b where "lab_accepted = Inr w0" and "loop_poll (lab_eof 6) 1 w0 = Inr w"
    and "sw_server w = Some s" and "sv_loop s = 1" and "tw_conns w 3 = Some conn"
    and "tc_channel conn = 4" and "cw_channels w 4 = Some ch" and "lw_loops w 1 = Some lp"
    and "\<forall>k. k \<noteq> 1 \<longrightarrow> lw_loops w k = None" and "\<forall>d. d \<noteq> 3 \<longrightarrow> tw_conns w d = None"
    and "el_threadId lp = io_tid w" and "el_activeChannels lp = [4]" and "el_pendingFunctors lp = []"
    and "tc_loop conn = 1" and "ch_loop ch = 1" and "ch_fd ch = 6" and "tc_socket conn = 6"
    and "el_wakeupFd lp = 4" and "\<not> isWriting ch" and "ch_tied ch" and "ch_tie ch = Some 3"
    and "ch_ReadCallBack ch = Some (ConnRead 3)" and "ch_revents ch = EPOLLIN"
    and "tc_connectionCallback conn = Some (UserFn 0)" and "tc_closeCallback conn = Some ServerRemoveConnection"
    and "sv_connections s (tc_name conn) = Some 3" and "Buffer_new kInitialSize = Inr b"
    and "tc_inputBuffer conn = b" and "tc_outputBuffer conn = b"
proof -
  obtain b where b: "Buffer_new kInitialSize = Inr b" by (rule Buffer_initial)
  have "\<exists>w0 w s conn ch lp. lab_accepted = Inr w0 \<and> loop_poll (lab_eof 6) 1 w0 = Inr w \<and>
      sw_server w = Some s \<and> sv_loop s = 1 \<and> tw_conns w 3 = Some conn \<and> tc_channel conn = 4 \<and>
      cw_channels w 4 = Some ch \<and> lw_loops w 1 = Some lp \<and>
      (\<forall>k. k \<noteq> 1 \<longrightarrow> lw_loops w k = None) \<and> (\<forall>d. d \<noteq> 3 \<longrightarrow> tw_conns w d = None) \<and>
      el_threadId lp = io_tid w \<and> el_activeChannels lp = [4] \<and> el_pendingFunctors lp = [] \<and> tc_loop conn = 1 \<and>
      ch_loop ch = 1 \<and> ch_fd ch = 6 \<and> tc_socket conn = 6 \<and> el_wakeupFd lp = 4 \<and> \<not> isWriting ch \<and>
      ch_tied ch \<and> ch_tie ch = Some 3 \<and> ch_ReadCallBack ch = Some (ConnRead 3) \<and> ch_revents ch = EPOLLIN \<and>
      tc_connectionCallback conn = Some (UserFn 0) \<and> tc_closeCallback conn = Some ServerRemoveConnection \<and>
      sv_connections s (tc_name conn) = Some 3 \<and> tc_inputBuffer conn = b \<and> tc_outputBuffer conn = b"
    apply (simp add: lab_accepted_def lab_opened_def lab_steps)
    apply (simp add: newConnection_def the_server_def lab_tcp_server_def EventLoopThreadPool_new_def getNextLoop_def
      local_address_def TcpConnection_new_def b put_conn_def lab_steps)
    apply (simp add: setKeepAlive_def set_option_def setConnCloseCallback_def setMessageCallback_def
      setWriteCompleteCallback_def setConnectionCallback_def setErrorCallback_def setCloseCallback_def
      setWriteCallback_def runInLoop_def isInLoopThread_def connectEstablished_def setState_def put_conn_def lab_steps)
    apply (simp add: tie_def invoke_connection_def invoke_def server_callbacks_def echo_callbacks_def onConnection_def
      connected_def put_conn_def lab_steps)
    apply (simp add: loop_poll_def poller_poll_def sys_wait_def lab_eof_simps interest_def fillActiveChannels_def
      TimeStamp_now_def put_loop_def Let_def KInitEventListSize_def put_block_def put_channel_def set_revents_def
      isWriting_def KWriteEvent_def mask_bits bit_or_iff)
    done
  then show ?thesis using b by (elim exE conjE) (rule that; assumption)
qed

lemma lab_accepted_inv:
  assumes "lab_accepted = Inr w0"
  shows "program_inv w0"
proof -
  obtain w where w: "lab_opened = Inr w" "program_inv w" "(6 :: int) \<in> open_fds (io_trace w)" "fresh_fd 6 w"
      "\<forall>l p. poller_at l w = Some p \<longrightarrow> ep_epollfd p \<noteq> 6"
    by (rule lab_opened_inv)
  have run: "newConnection (server_callbacks (echo_callbacks (lab_eof 6)) (lab_eof 6)) (lab_eof 6) 6 lab_addr w = Inr w0"
    using assms unfolding lab_accepted_def w(1) by simp
  have "server_safe w w0"
    by (rule newConnection_safe [OF server_callbacks_safe [OF echo_callbacks_safe] w(3,4) _ run]) (use w(5) in blast)
  with w(2) show ?thesis by (simp add: server_safe_def)
qed


end
