(* ===== verification/Server_Handover.thy ===== *)
theory Server_Handover
  imports Server_Close
begin

text \<open>
  The end of a connection that lives in a loop of the pool: its loop and the loop of the server hand
  it to each other through their queues until nobody holds it. The witness runs the code from the
  construction of both loops, over the accepting in one thread and the establishing in the other, to
  the poll that reports the end of file.
\<close>

section \<open>The same across two loops\<close>

text \<open>Which thread runs is no part of the invariant.\<close>

lemma program_inv_tid [simp]: "program_inv (w\<lparr>io_tid := t\<rparr>) \<longleftrightarrow> program_inv w"
  by (simp add: program_inv_def world_inv_def addr_ok_def loops_inv_def poller_at_def conns_inv_def fds_inv_def
      epolls_inv_def server_ok_def poller_inv_def)

lemma owned_by_task:
  "t \<in> set (pending k w) \<Longrightarrow> k < lw_next w \<Longrightarrow> task_owns t = Some c \<Longrightarrow> owned w c"
  by (auto simp: owned_def list_ex_iff)

lemma removal_task:
  fixes w :: "'a server_world_scheme"
  assumes lp: "lw_loops w b = Some blp" "el_pendingFunctors blp = [RemoveConnectionInPool c]"
    and s: "sw_server w = Some s" and conn: "tw_conns w c = Some conn"
    and home: "tc_loop conn = l" "l \<noteq> b" "lw_loops w l = Some lp" "el_threadId lp \<noteq> io_tid w"
  obtains w' evs where "doPendingFunctors (run_task user os) b w = Inr w'"
    and "sw_server w' = Some (s\<lparr>sv_connections := (sv_connections s)(tc_name conn := None)\<rparr>)"
    and "tw_conns w' = tw_conns w" and "cw_channels w' = cw_channels w"
    and "lw_loops w' = (lw_loops w)(l \<mapsto> lp\<lparr>el_pendingFunctors := el_pendingFunctors lp @ [ConnectDestroyed c]\<rparr>,
      b \<mapsto> blp\<lparr>el_pendingFunctors := [], el_callingPendingFunctors := False\<rparr>)"
    and "io_trace w' = io_trace w @ evs" and "woken (el_wakeupFd lp) evs" and "closed_fds evs = []"
    and "lw_next w' = lw_next w"
proof -
  let ?w1 = "put_loop b (blp\<lparr>el_callingPendingFunctors := True, el_pendingFunctors := []\<rparr>) w"
  have at: "sw_server ?w1 = Some s" "tw_conns ?w1 c = Some conn" "lw_loops ?w1 (tc_loop conn) = Some lp"
    using s conn home by simp_all
  obtain w2 evs where w2: "removeConnectionInPool os c ?w1 = Inr w2"
      "sw_server w2 = Some (s\<lparr>sv_connections := (sv_connections s)(tc_name conn := None)\<rparr>)"
      "tw_conns w2 = tw_conns ?w1" "cw_channels w2 = cw_channels ?w1"
      "lw_loops w2 = (lw_loops ?w1)(tc_loop conn \<mapsto>
        lp\<lparr>el_pendingFunctors := el_pendingFunctors lp @ [ConnectDestroyed c]\<rparr>)"
      "io_trace w2 = io_trace ?w1 @ evs" "wakeup_events (el_wakeupFd lp) evs"
      "woken (el_wakeupFd lp) evs" "lw_next w2 = lw_next ?w1"
    by (rule removeConnectionInPool_result [OF at, of os]) (use home(4) in simp)
  let ?w3 = "put_loop b ((blp\<lparr>el_callingPendingFunctors := True, el_pendingFunctors := []\<rparr>)\<lparr>el_callingPendingFunctors := False\<rparr>) w2"
  have run: "doPendingFunctors (run_task user os) b w = Inr ?w3"
    using lp w2(1,5) home(1,2) by (simp add: doPendingFunctors_def)
  have "lw_loops ?w3 = (lw_loops w)(l \<mapsto> lp\<lparr>el_pendingFunctors := el_pendingFunctors lp @ [ConnectDestroyed c]\<rparr>,
      b \<mapsto> blp\<lparr>el_pendingFunctors := [], el_callingPendingFunctors := False\<rparr>)"
    using w2(5) home(1,2) by (cases blp) (auto simp: fun_eq_iff)
  then show ?thesis
    using w2(2-4,6-9) wakeup_closes [OF w2(7)] by (intro that [OF run]) simp_all
qed

text \<open>The first step: the handler of the end of file hands the removal to the loop of the server.\<close>

lemma eof_handover:
  fixes w :: "'a server_world_scheme"
  assumes inv: "addr_ok w" and s: "sw_server w = Some s" "sv_loop s = b" "b \<noteq> l"
    and lp: "lw_loops w l = Some lp" and blp: "lw_loops w b = Some blp" "el_threadId blp \<noteq> io_tid w"
    and ok: "conn_ok w c conn ch" and home: "tc_loop conn = l"
    and ch: "ch_tied ch" "ch_tie ch = Some c" "ch_ReadCallBack ch = Some (ConnRead c)" "ch_revents ch = EPOLLIN"
    and cbs: "tc_connectionCallback conn = Some (UserFn 0)" "tc_closeCallback conn = Some ServerRemoveConnection"
    and small: "length (buf_data (tc_inputBuffer conn)) + 65536 \<le> vec_max"
    and eof: "os_read os (io_trace w) (tc_socket conn) (read_room (tc_inputBuffer conn)) = Inr []"
  obtains w1 inb ch1 q evs where
    "handleEvent conn_alive (run_callback (echo_callbacks os) os) (tc_channel conn) t w = Inr w1"
    and "tw_conns w1 = (tw_conns w)(c \<mapsto> conn\<lparr>tc_inputBuffer := inb, tc_state := kDisconnected\<rparr>)"
    and "cw_channels w1 = (cw_channels w)(tc_channel conn \<mapsto> ch1)" and "ch_loop ch1 = l"
    and "lw_loops w1 = (lw_loops w)(l \<mapsto> lp\<lparr>el_poller := q\<rparr>,
      b \<mapsto> blp\<lparr>el_pendingFunctors := el_pendingFunctors blp @ [RemoveConnectionInPool c]\<rparr>)"
    and "sw_server w1 = Some s" and "lw_next w1 = lw_next w"
    and "io_trace w1 = io_trace w @ evs" and "woken (el_wakeupFd blp) evs" and "closed_fds evs = []"
proof -
  obtain v inb ch1 q evs0 where
    v: "handleEvent conn_alive (run_callback (echo_callbacks os) os) (tc_channel conn) t w = removeConnection os c v"
      "tw_conns v = (tw_conns w)(c \<mapsto> conn\<lparr>tc_inputBuffer := inb, tc_state := kDisconnected\<rparr>)"
      "cw_channels v = (cw_channels w)(tc_channel conn \<mapsto> ch1)" "ch_loop ch1 = l"
      "lw_loops v = (lw_loops w)(l \<mapsto> lp\<lparr>el_poller := q\<rparr>)"
      "sw_server v = sw_server w" "lw_next v = lw_next w" "io_tid v = io_tid w" "io_trace v = io_trace w @ evs0"
      "closed_fds evs0 = []"
    by (rule eof_event [OF inv ok home ch cbs lp small eof, of t]) blast
  have bv: "lw_loops v b = Some blp" using v(5) blp(1) s(3) by simp
  obtain w1 evs1 where w1: "queueInLLoop os b (RemoveConnectionInPool c) v = Inr w1"
      "lw_loops w1 = (lw_loops v)(b \<mapsto> blp\<lparr>el_pendingFunctors := el_pendingFunctors blp @ [RemoveConnectionInPool c]\<rparr>)"
      "cw_channels w1 = cw_channels v" "loop_world.more w1 = loop_world.more v" "lw_next w1 = lw_next v"
      "io_trace w1 = io_trace v @ evs1" "wakeup_events (el_wakeupFd blp) evs1" "evs1 \<noteq> []"
    by (rule queueInLLoop_result [OF bv, of os "RemoveConnectionInPool c"]) (use blp(2) v(8) in simp)
  have "removeConnection os c v = Inr w1"
    using w1(1) v(6,8) s(1,2) bv blp(2) by (simp add: removeConnection_def the_server_def runInLoop_def isInLoopThread_def)
  with v(1) have ev: "handleEvent conn_alive (run_callback (echo_callbacks os) os) (tc_channel conn) t w = Inr w1" by simp
  show ?thesis
    by (rule that [OF ev _ _ v(4), where inb = inb and q = q and evs = "evs0 @ evs1"])
      (use v w1 s woken_write [OF w1(7,8)] wakeup_closes [OF w1(7)] in \<open>simp_all add: conn_more server_more\<close>)
qed

text \<open>
  C4. A connection whose loop runs in another thread than the server's goes in three steps: the
  handler of the end of file disconnects it and hands its removal to the loop of the server, which
  it wakes up; the queue of that loop takes it out of the map and hands its destruction back, waking
  the loop of the connection up; and the queue of that loop takes it out of epoll, after which it is
  destroyed and its descriptor closed, once, and no other. Until then it is owned by the queued
  functions, so no step finds it gone.
\<close>

theorem peer_close_across_loops:
  fixes w :: "'a server_world_scheme"
  assumes os: "fresh_descriptors os" and inv: "program_inv w" and s: "sw_server w = Some s" "sv_loop s = b" "b \<noteq> l"
    and lp: "lw_loops w l = Some lp" "el_threadId lp = io_tid w" "el_pendingFunctors lp = []"
    and blp: "lw_loops w b = Some blp" "el_threadId blp \<noteq> io_tid w" "el_pendingFunctors blp = []"
    and ok: "conn_ok w c conn ch" and home: "tc_loop conn = l"
    and ch: "ch_tied ch" "ch_tie ch = Some c" "ch_ReadCallBack ch = Some (ConnRead c)" "ch_revents ch = EPOLLIN"
    and cbs: "tc_connectionCallback conn = Some (UserFn 0)" "tc_closeCallback conn = Some ServerRemoveConnection"
    and small: "length (buf_data (tc_inputBuffer conn)) + 65536 \<le> vec_max"
    and eof: "os_read os (io_trace w) (tc_socket conn) (read_room (tc_inputBuffer conn)) = Inr []"
    and in_map: "\<And>d k. tw_conns w d = Some k \<Longrightarrow> sv_connections s (tc_name k) = Some d"
    and not_queued: "\<And>k t. t \<in> set (pending k w) \<Longrightarrow> task_owns t \<noteq> Some c"
  shows "\<exists>w1 w2 w3 w4 evs1 evs2 evs3.
      handleEvent conn_alive (run_callback (echo_callbacks os) os) (tc_channel conn) t w = Inr w1 \<and>
      sw_server w1 = Some s \<and> pending b w1 = [RemoveConnectionInPool c] \<and> owned w1 c \<and>
      io_trace w1 = io_trace w @ evs1 \<and> woken (el_wakeupFd blp) evs1 \<and>
      doPendingFunctors (run_task (echo_callbacks os) os) b (w1\<lparr>io_tid := el_threadId blp\<rparr>) = Inr w2 \<and>
      sw_server w2 = Some (s\<lparr>sv_connections := (sv_connections s)(tc_name conn := None)\<rparr>) \<and>
      pending l w2 = [ConnectDestroyed c] \<and> owned w2 c \<and>
      io_trace w2 = io_trace w1 @ evs2 \<and> woken (el_wakeupFd lp) evs2 \<and>
      doPendingFunctors (run_task (echo_callbacks os) os) l (w2\<lparr>io_tid := el_threadId lp\<rparr>) = Inr w3 \<and>
      release_unowned os w3 = Inr w4 \<and> program_inv w4 \<and> tw_conns w4 = (tw_conns w)(c := None) \<and>
      io_trace w4 = io_trace w2 @ evs3 \<and> closed_fds (evs1 @ evs2 @ evs3) = [tc_socket conn]"
proof -
  let ?user = "echo_callbacks os"
  have aw: "addr_ok w" using inv by (simp add: program_inv_def world_inv_def)
  have below: "l < lw_next w" "b < lw_next w" using aw lp(1) blp(1) by (auto simp: addr_ok_def)
  obtain w1 inb ch1 q evs1 where
    ev: "handleEvent conn_alive (run_callback ?user os) (tc_channel conn) t w = Inr w1"
    and w1: "tw_conns w1 = (tw_conns w)(c \<mapsto> conn\<lparr>tc_inputBuffer := inb, tc_state := kDisconnected\<rparr>)"
      "cw_channels w1 = (cw_channels w)(tc_channel conn \<mapsto> ch1)" "ch_loop ch1 = l"
      "lw_loops w1 = (lw_loops w)(l \<mapsto> lp\<lparr>el_poller := q\<rparr>,
        b \<mapsto> blp\<lparr>el_pendingFunctors := el_pendingFunctors blp @ [RemoveConnectionInPool c]\<rparr>)"
      "sw_server w1 = Some s" "lw_next w1 = lw_next w" "io_trace w1 = io_trace w @ evs1"
      "woken (el_wakeupFd blp) evs1" "closed_fds evs1 = []"
    by (rule eof_handover [OF aw s lp(1) blp(1,2) ok home ch cbs small eof, of t])
  let ?conn = "conn\<lparr>tc_inputBuffer := inb, tc_state := kDisconnected\<rparr>"
  let ?s = "s\<lparr>sv_connections := (sv_connections s)(tc_name conn := None)\<rparr>"
  have inv1: "program_inv w1"
    using handleEvent_safe [OF run_callback_safe [OF echo_callbacks_safe os] ev] inv by (simp add: server_safe_def)
  let ?u1 = "w1\<lparr>io_tid := el_threadId blp\<rparr>"
  let ?blp = "blp\<lparr>el_pendingFunctors := [RemoveConnectionInPool c]\<rparr>"
  have u1: "lw_loops ?u1 b = Some ?blp" "el_pendingFunctors ?blp = [RemoveConnectionInPool c]" "sw_server ?u1 = Some s"
      "tw_conns ?u1 c = Some ?conn" "tc_loop ?conn = l" "l \<noteq> b" "lw_loops ?u1 l = Some (lp\<lparr>el_poller := q\<rparr>)"
      "el_threadId (lp\<lparr>el_poller := q\<rparr>) \<noteq> io_tid ?u1"
    using w1(1,4,5) s(3) home blp(2,3) lp(2) by simp_all
  obtain w2 evs2 where w2: "doPendingFunctors (run_task ?user os) b ?u1 = Inr w2" "sw_server w2 = Some ?s"
      "tw_conns w2 = tw_conns ?u1" "cw_channels w2 = cw_channels ?u1"
      "lw_loops w2 = (lw_loops ?u1)(l \<mapsto> (lp\<lparr>el_poller := q\<rparr>)\<lparr>el_pendingFunctors :=
          el_pendingFunctors (lp\<lparr>el_poller := q\<rparr>) @ [ConnectDestroyed c]\<rparr>,
        b \<mapsto> ?blp\<lparr>el_pendingFunctors := [], el_callingPendingFunctors := False\<rparr>)"
      "io_trace w2 = io_trace ?u1 @ evs2" "woken (el_wakeupFd (lp\<lparr>el_poller := q\<rparr>)) evs2" "closed_fds evs2 = []"
      "lw_next w2 = lw_next ?u1"
    by (rule removal_task [OF u1, of ?user os]) simp
  have inv2: "program_inv w2"
    using doPendingFunctors_safe [OF run_task_safe [OF echo_callbacks_safe] w2(1)] inv1 by (simp add: server_safe_def)
  let ?u2 = "w2\<lparr>io_tid := el_threadId lp\<rparr>" and ?lp = "lp\<lparr>el_poller := q, el_pendingFunctors := [ConnectDestroyed c]\<rparr>"
  have u2: "program_inv ?u2" "tw_conns ?u2 c = Some ?conn" "tc_state ?conn = kDisconnected"
      "cw_channels ?u2 (tc_channel ?conn) = Some ch1" "lw_loops ?u2 l = Some ?lp" "el_pendingFunctors ?lp = [ConnectDestroyed c]"
      "sw_server ?u2 = Some ?s" "sv_connections ?s (tc_name ?conn) = None"
    using inv2 w2(2-5) w1(2) u1(4) s(3) lp(3) by simp_all
  have others: "sv_connections ?s (tc_name k) = Some d" if "tw_conns ?u2 d = Some k" "d \<noteq> c" for d k
    using map_of_others [OF in_map conn_okD(2) [OF ok], of d k] that w2(3) w1(1) by simp
  have free: "task_owns t \<noteq> Some c" if "k \<noteq> l" "t \<in> set (pending k ?u2)" for k t
    using not_queued [of t k] that w2(5) w1(4) by (auto simp: pending_def split: if_splits)
  obtain w3 w4 evs3 where w3: "doPendingFunctors (run_task ?user os) l ?u2 = Inr w3" "release_unowned os w3 = Inr w4" "program_inv w4"
      "tw_conns w4 = (tw_conns ?u2)(c := None)" "io_trace w4 = io_trace ?u2 @ evs3" "closed_fds evs3 = [tc_socket ?conn]"
    by (rule last_reference [OF u2(1) echo_callbacks_safe u2(2-4) w1(3) u2(5-8) others free, where os = os])
  have pend: "pending b w1 = [RemoveConnectionInPool c]" "pending l w2 = [ConnectDestroyed c]"
    using w1(4) w2(5) s(3) blp(3) lp(3) by (simp_all add: pending_def)
  have "owned w1 c" "owned w2 c"
    by (rule owned_by_task [of "RemoveConnectionInPool c" b], use pend below w1(6) in simp_all)
      (rule owned_by_task [of "ConnectDestroyed c" l], use pend below w1(6) w2(9) in simp_all)
  moreover have "tw_conns w4 = (tw_conns w)(c := None)" using w3(4) w2(3) w1(1) by simp
  moreover have "closed_fds (evs1 @ evs2 @ evs3) = [tc_socket conn]" using w1(9) w2(8) w3(6) by simp
  moreover have "io_trace w2 = io_trace w1 @ evs2" "io_trace w4 = io_trace w2 @ evs3" using w2(6) w3(5) by simp_all
  moreover have "woken (el_wakeupFd lp) evs2" using w2(7) by simp
  ultimately show ?thesis using ev w1(5,7,8) pend w2(1,2) w3(1-3) by blast
qed

section \<open>A concrete end of file across two loops\<close>

text \<open>The same with a pool of one thread: the connection lives in the loop of that thread.\<close>

definition lab_pooled :: "cpp_error + server_world" where
  "lab_pooled = bindE (EventLoop_new False (lab_eof 8) (process_start 7)) (\<lambda>(l, w).
     bindE (pool_start_thread False (lab_eof 8) (\<lambda>f l w. Inl BadFunctionCall) None 0
       (pool_setThreadNum 1 (EventLoopThreadPool_new l ''EchoServer''), w)) (\<lambda>(p, w).
     Inr (snd (sys_open (lab_eof 8) (Accept4 7) (snd (sys_open (lab_eof 8) StreamSocket
       (put_server (lab_tcp_server\<lparr>sv_threadPool := p\<rparr>) w)))))))"

lemma lab_pooled_inv:
  obtains w where "lab_pooled = Inr w" and "program_inv w" and "(8 :: int) \<in> open_fds (io_trace w)"
    and "fresh_fd 8 w" and "\<forall>l p. poller_at l w = Some p \<longrightarrow> ep_epollfd p \<noteq> 8"
proof -
  let ?os = "lab_eof 8" and ?p = "pool_setThreadNum 1 (EventLoopThreadPool_new 1 ''EchoServer'')"
  note os = lab_eof_ok(1,2) [of 8]
  obtain w1 p f where w1: "EventLoop_new False ?os (process_start 7 :: server_world) = Inr (1, w1)" "setup_inv w1"
      "lw_loops w1 = [1 \<mapsto> new_loop 7 p f 2]"
    by (rule EventLoop_new_setup [OF process_start_inv [of 7] os])
      (simp add: process_start_def numeral_2_eq_2)
  obtain t l lp w2 where w2: "pool_start_thread False ?os (\<lambda>f l w. Inl BadFunctionCall) None 0 (?p, w1) =
        Inr (?p\<lparr>tp_threads := tp_threads ?p @ [t], tp_loops := tp_loops ?p @ [l]\<rparr>, w2)"
      "setup_inv w2" "lw_loops w2 = (lw_loops w1)(l \<mapsto> lp)"
    by (rule pool_thread_setup [OF w1(2) os])
  let ?pool = "?p\<lparr>tp_threads := tp_threads ?p @ [t], tp_loops := tp_loops ?p @ [l]\<rparr>"
  let ?s = "lab_tcp_server\<lparr>sv_threadPool := ?pool\<rparr>"
  let ?w3 = "put_server ?s w2"
  have 3: "setup_inv ?w3" using setup_put_server [OF w2(2)] by blast
  obtain w5 where w5: "snd (sys_open ?os (Accept4 7) (snd (sys_open ?os StreamSocket ?w3))) = w5"
      "setup_inv w5" "lw_loops w5 = lw_loops ?w3" "tw_conns w5 = tw_conns ?w3" "sw_server w5 = sw_server ?w3"
    by (rule lab_sockets [OF 3 os])
  have run: "lab_pooled = Inr w5" using w1(1) w2(1) w5(1) by (simp add: lab_pooled_def)
  have "server_ok w5 ?s"
    by (simp add: server_ok_def lab_tcp_server_def pool_inv_def pool_setThreadNum_def EventLoopThreadPool_new_def w1(3) w2(3) w5(3))
  then have "program_inv w5" using setup_invD(1) [OF w5(2)] w5(5) by (simp add: program_inv_def)
  moreover have "\<exists>v. lab_pooled = Inr v \<and> (8 :: int) \<in> open_fds (io_trace v) \<and> fresh_fd 8 v \<and>
      (\<forall>l p. poller_at l v = Some p \<longrightarrow> ep_epollfd p \<noteq> 8)"
    apply (simp add: lab_pooled_def lab_steps)
    apply (auto simp: pool_start_thread_def EventLoopThread_new_def Thread_new_def setDefaultName_def
      EventLoopThreadPool_new_def pool_setThreadNum_def Thread_start_def startLoop_def threadFunc_begin_def
      sys_spawn_def lab_steps open_fds_def fresh_fd_def poller_at_def split: if_splits)
    done
  then obtain v where v: "lab_pooled = Inr v" "(8 :: int) \<in> open_fds (io_trace v)" "fresh_fd 8 v"
      "\<forall>l p. poller_at l v = Some p \<longrightarrow> ep_epollfd p \<noteq> 8"
    by blast
  moreover have "v = w5" using trans [OF v(1) [symmetric] run] by (simp only: sum.inject)
  ultimately show ?thesis using that by blast
qed

text \<open>The connection is accepted in the main thread, established and polled in the thread of the pool.\<close>

definition lab_served :: "cpp_error + server_world" where
  "lab_served = bindE lab_pooled (\<lambda>w.
     bindE (newConnection (server_callbacks (echo_callbacks (lab_eof 8)) (lab_eof 8)) (lab_eof 8) 8 lab_addr w) (\<lambda>w.
     bindE (doPendingFunctors (run_task (echo_callbacks (lab_eof 8)) (lab_eof 8)) 3 (w\<lparr>io_tid := 103\<rparr>))
       (loop_poll (lab_eof 8) 3)))"

lemma lab_served_inv:
  assumes "lab_served = Inr w"
  shows "program_inv w"
proof -
  let ?os = "lab_eof 8" and ?user = "echo_callbacks (lab_eof 8)"
  obtain w0 where w0: "lab_pooled = Inr w0" "program_inv w0" "(8 :: int) \<in> open_fds (io_trace w0)" "fresh_fd 8 w0"
      "\<forall>l p. poller_at l w0 = Some p \<longrightarrow> ep_epollfd p \<noteq> 8"
    by (rule lab_pooled_inv)
  from assms obtain w1 w2 where w1: "newConnection (server_callbacks ?user ?os) ?os 8 lab_addr w0 = Inr w1"
    and w2: "doPendingFunctors (run_task ?user ?os) 3 (w1\<lparr>io_tid := 103\<rparr>) = Inr w2" and w: "loop_poll ?os 3 w2 = Inr w"
    unfolding lab_served_def w0(1) by (auto simp: bind_simps)
  have "server_safe w0 w1"
    by (rule newConnection_safe [OF server_callbacks_safe [OF echo_callbacks_safe] w0(3,4) _ w1]) (use w0(5) in blast)
  then have "program_inv (w1\<lparr>io_tid := 103\<rparr>)" using w0(2) by (simp add: server_safe_def)
  moreover have "server_safe (w1\<lparr>io_tid := 103\<rparr>) w2"
    by (rule doPendingFunctors_safe [OF run_task_safe [OF echo_callbacks_safe] w2])
  moreover have "server_safe w2 w" by (rule loop_poll_safe [OF lab_eof_ok(3) w])
  ultimately show ?thesis by (simp add: server_safe_def)
qed

lemma lab_served_run:
  obtains w s conn ch lp blp b where "lab_served = Inr w"
    and "sw_server w = Some s" and "sv_loop s = 1" and "tw_conns w 5 = Some conn"
    and "tc_channel conn = 6" and "cw_channels w 6 = Some ch" and "lw_loops w 3 = Some lp" and "lw_loops w 1 = Some blp"
    and "\<forall>k. k \<noteq> 1 \<longrightarrow> k \<noteq> 3 \<longrightarrow> lw_loops w k = None" and "\<forall>d. d \<noteq> 5 \<longrightarrow> tw_conns w d = None"
    and "el_threadId lp = 103" and "el_threadId blp = 7" and "io_tid w = 103"
    and "el_pendingFunctors lp = []" and "el_pendingFunctors blp = []"
    and "tc_loop conn = 3" and "ch_loop ch = 3" and "ch_fd ch = 8" and "tc_socket conn = 8"
    and "el_wakeupFd lp = 6" and "\<not> isWriting ch" and "ch_tied ch" and "ch_tie ch = Some 5"
    and "ch_ReadCallBack ch = Some (ConnRead 5)" and "ch_revents ch = EPOLLIN"
    and "tc_connectionCallback conn = Some (UserFn 0)" and "tc_closeCallback conn = Some ServerRemoveConnection"
    and "sv_connections s (tc_name conn) = Some 5" and "Buffer_new kInitialSize = Inr b"
    and "tc_inputBuffer conn = b" and "tc_outputBuffer conn = b"
proof -
  obtain b where b: "Buffer_new kInitialSize = Inr b" by (rule Buffer_initial)
  have "\<exists>w s conn ch lp blp. lab_served = Inr w \<and>
      sw_server w = Some s \<and> sv_loop s = 1 \<and> tw_conns w 5 = Some conn \<and> tc_channel conn = 6 \<and>
      cw_channels w 6 = Some ch \<and> lw_loops w 3 = Some lp \<and> lw_loops w 1 = Some blp \<and>
      (\<forall>k. k \<noteq> 1 \<longrightarrow> k \<noteq> 3 \<longrightarrow> lw_loops w k = None) \<and> (\<forall>d. d \<noteq> 5 \<longrightarrow> tw_conns w d = None) \<and>
      el_threadId lp = 103 \<and> el_threadId blp = 7 \<and> io_tid w = 103 \<and>
      el_pendingFunctors lp = [] \<and> el_pendingFunctors blp = [] \<and> tc_loop conn = 3 \<and>
      ch_loop ch = 3 \<and> ch_fd ch = 8 \<and> tc_socket conn = 8 \<and> el_wakeupFd lp = 6 \<and> \<not> isWriting ch \<and>
      ch_tied ch \<and> ch_tie ch = Some 5 \<and> ch_ReadCallBack ch = Some (ConnRead 5) \<and> ch_revents ch = EPOLLIN \<and>
      tc_connectionCallback conn = Some (UserFn 0) \<and> tc_closeCallback conn = Some ServerRemoveConnection \<and>
      sv_connections s (tc_name conn) = Some 5 \<and> tc_inputBuffer conn = b \<and> tc_outputBuffer conn = b"
    apply (simp add: lab_served_def lab_pooled_def lab_steps)
    apply (simp add: pool_start_thread_def EventLoopThread_new_def Thread_new_def setDefaultName_def
      EventLoopThreadPool_new_def pool_setThreadNum_def Thread_start_def startLoop_def threadFunc_begin_def
      sys_spawn_def lab_steps)
    apply (simp add: newConnection_def the_server_def lab_tcp_server_def getNextLoop_def
      local_address_def TcpConnection_new_def b put_conn_def lab_steps)
    apply (simp add: setKeepAlive_def set_option_def setConnCloseCallback_def setMessageCallback_def
      setWriteCompleteCallback_def setConnectionCallback_def setErrorCallback_def setCloseCallback_def
      setWriteCallback_def runInLoop_def isInLoopThread_def queueInLLoop_def wakeup_def sys_write_def one_bytes_def put_conn_def lab_steps)
    apply (simp add: doPendingFunctors_def connectEstablished_def setState_def tie_def put_conn_def lab_steps)
    apply (simp add: invoke_connection_def invoke_def server_callbacks_def echo_callbacks_def onConnection_def
      connected_def put_conn_def lab_steps)
    apply (simp add: loop_poll_def poller_poll_def sys_wait_def lab_eof_simps interest_def fillActiveChannels_def
      TimeStamp_now_def put_loop_def Let_def KInitEventListSize_def put_block_def put_channel_def set_revents_def
      isWriting_def KWriteEvent_def mask_bits bit_or_iff)
    done
  then show ?thesis using b by (elim exE conjE) (rule that; assumption)
qed

theorem peer_close_across_loops_witness:
  "\<exists>w w1 w2 w3 w4 conn evs. lab_served = Inr w \<and> tw_conns w 5 = Some conn \<and>
     handleEvent conn_alive (run_callback (echo_callbacks (lab_eof 8)) (lab_eof 8)) (tc_channel conn) TimeStamp_default w = Inr w1 \<and>
     doPendingFunctors (run_task (echo_callbacks (lab_eof 8)) (lab_eof 8)) 1 (w1\<lparr>io_tid := 7\<rparr>) = Inr w2 \<and>
     doPendingFunctors (run_task (echo_callbacks (lab_eof 8)) (lab_eof 8)) 3 (w2\<lparr>io_tid := 103\<rparr>) = Inr w3 \<and>
     release_unowned (lab_eof 8) w3 = Inr w4 \<and> program_inv w4 \<and> tw_conns w4 5 = None \<and>
     io_trace w4 = io_trace w @ evs \<and> closed_fds evs = [8]"
proof -
  let ?os = "lab_eof 8" and ?user = "echo_callbacks (lab_eof 8)"
  obtain w s conn ch lp blp b where w: "lab_served = Inr w"
    "sw_server w = Some s" "sv_loop s = 1" "tw_conns w 5 = Some conn"
    "tc_channel conn = 6" "cw_channels w 6 = Some ch" "lw_loops w 3 = Some lp" "lw_loops w 1 = Some blp"
    "\<forall>k. k \<noteq> 1 \<longrightarrow> k \<noteq> 3 \<longrightarrow> lw_loops w k = None" "\<forall>d. d \<noteq> 5 \<longrightarrow> tw_conns w d = None"
    "el_threadId lp = 103" "el_threadId blp = 7" "io_tid w = 103"
    "el_pendingFunctors lp = []" "el_pendingFunctors blp = []"
    "tc_loop conn = 3" "ch_loop ch = 3" "ch_fd ch = 8" "tc_socket conn = 8"
    "el_wakeupFd lp = 6" "\<not> isWriting ch" "ch_tied ch" "ch_tie ch = Some 5"
    "ch_ReadCallBack ch = Some (ConnRead 5)" "ch_revents ch = EPOLLIN"
    "tc_connectionCallback conn = Some (UserFn 0)" "tc_closeCallback conn = Some ServerRemoveConnection"
    "sv_connections s (tc_name conn) = Some 5" "Buffer_new kInitialSize = Inr b"
    "tc_inputBuffer conn = b" "tc_outputBuffer conn = b"
    by (rule lab_served_run)
  note inv = lab_served_inv [OF w(1)]
  then have li: "loops_inv w" by (simp add: program_inv_def world_inv_def)
  obtain b' where "Buffer_new kInitialSize = Inr b'" "buf_inv b'" "contents b' = []" "length (buf_data b') = 1032"
    by (rule Buffer_initial)
  with w(29-31) have b: "buf_inv b" "contents b = []" "length (buf_data b) = 1032" by simp_all
  have chan: "cw_channels w (tc_channel conn) = Some ch" using w(5,6) by simp
  have ok: "conn_ok w 5 conn ch" using li w b chan by (simp add: conn_ok_def)
  have small: "length (buf_data (tc_inputBuffer conn)) + 65536 \<le> vec_max" by (simp add: w(30) b vec_max_def)
  have tids: "el_threadId lp = io_tid w" "el_threadId blp \<noteq> io_tid w" "(1 :: nat) \<noteq> 3" using w(11-13) by simp_all
  have map: "tw_conns w d = Some k \<Longrightarrow> sv_connections s (tc_name k) = Some d" for d k
    using w(4,10,28) by (cases "d = 5") auto
  have none: "t \<in> set (pending k w) \<Longrightarrow> task_owns t \<noteq> Some 5" for k t
    using w(7-9,14,15) by (cases "k = 1"; cases "k = 3") (auto simp: pending_def)
  have "\<exists>w1 w2 w3 w4 evs1 evs2 evs3.
      handleEvent conn_alive (run_callback ?user ?os) (tc_channel conn) TimeStamp_default w = Inr w1 \<and>
      sw_server w1 = Some s \<and> pending 1 w1 = [RemoveConnectionInPool 5] \<and> owned w1 5 \<and>
      io_trace w1 = io_trace w @ evs1 \<and> woken (el_wakeupFd blp) evs1 \<and>
      doPendingFunctors (run_task ?user ?os) 1 (w1\<lparr>io_tid := el_threadId blp\<rparr>) = Inr w2 \<and>
      sw_server w2 = Some (s\<lparr>sv_connections := (sv_connections s)(tc_name conn := None)\<rparr>) \<and>
      pending 3 w2 = [ConnectDestroyed 5] \<and> owned w2 5 \<and>
      io_trace w2 = io_trace w1 @ evs2 \<and> woken (el_wakeupFd lp) evs2 \<and>
      doPendingFunctors (run_task ?user ?os) 3 (w2\<lparr>io_tid := el_threadId lp\<rparr>) = Inr w3 \<and>
      release_unowned ?os w3 = Inr w4 \<and> program_inv w4 \<and> tw_conns w4 = (tw_conns w)(5 := None) \<and>
      io_trace w4 = io_trace w2 @ evs3 \<and> closed_fds (evs1 @ evs2 @ evs3) = [tc_socket conn]"
    by (rule peer_close_across_loops [OF lab_eof_ok(2) inv w(2,3) tids(3) w(7) tids(1) w(14,8) tids(2) w(15) ok w(16,22-27)
        small _ map none]) (simp add: lab_eof_simps)
  then obtain w1 w2 w3 w4 evs1 evs2 evs3 where
    r: "handleEvent conn_alive (run_callback ?user ?os) (tc_channel conn) TimeStamp_default w = Inr w1"
      "doPendingFunctors (run_task ?user ?os) 1 (w1\<lparr>io_tid := el_threadId blp\<rparr>) = Inr w2"
      "doPendingFunctors (run_task ?user ?os) 3 (w2\<lparr>io_tid := el_threadId lp\<rparr>) = Inr w3"
      "release_unowned ?os w3 = Inr w4" "program_inv w4" "tw_conns w4 = (tw_conns w)(5 := None)"
    and tr: "io_trace w1 = io_trace w @ evs1" "io_trace w2 = io_trace w1 @ evs2" "io_trace w4 = io_trace w2 @ evs3"
      "closed_fds (evs1 @ evs2 @ evs3) = [tc_socket conn]"
    by blast
  have "io_trace w4 = io_trace w @ (evs1 @ evs2 @ evs3)" "closed_fds (evs1 @ evs2 @ evs3) = [8]"
    using tr w(19) by simp_all
  moreover have "tw_conns w4 5 = None" using r(6) by simp
  ultimately show ?thesis using w(1,4) r(1-5) unfolding w(11,12) by blast
qed

end
