(* ===== verification/Connection_Stream.thy ===== *)
theory Connection_Stream
  imports Connection_Lifecycle
begin

text \<open>
  The outgoing byte stream of a connection over many events: what waits gets out, and buffering is
  invisible to the peer.
\<close>

section \<open>Draining\<close>

lemma write_events_drain_result:
  assumes takes: "\<And>h bytes. bytes \<noteq> [] \<Longrightarrow> \<exists>n>0. os_write os h f bytes = Inr n"
    and "conn_ok w c conn ch" and "isWriting ch" and "tc_socket conn = f"
  shows "\<exists>k w' conn' ch'. k \<le> length (contents (tc_outputBuffer conn)) \<and> rounds (handleWrite os c) k w = Inr w' \<and>
      conn_ok w' c conn' ch' \<and> contents (tc_outputBuffer conn') = [] \<and> \<not> isWriting ch' \<and>
      sent_bytes f (io_trace w') = sent_bytes f (io_trace w) @ contents (tc_outputBuffer conn) \<and> tc_socket conn' = f"
  using assms(2-4)
proof (induction "length (contents (tc_outputBuffer conn))" arbitrary: w conn ch rule: less_induct)
  case less
  let ?s = "contents (tc_outputBuffer conn)"
  note ok = less.prems(1)
  have ne: "?s \<noteq> []" using conn_okD(8) [OF ok] less.prems(2) by blast
  obtain n where n: "0 < n" "os_write os (io_trace w) (tc_socket conn) ?s = Inr n"
    using takes [OF ne] less.prems(3) by blast
  obtain w1 outb ch1 where w1: "handleWrite os c w = Inr w1"
      "conn_ok w1 c (conn\<lparr>tc_outputBuffer := outb\<rparr>) ch1" "contents outb = drop n ?s"
      "isWriting ch1 \<longleftrightarrow> n < length ?s"
      "sent_bytes (tc_socket conn) (io_trace w1) = sent_bytes (tc_socket conn) (io_trace w) @ take n ?s"
    by (rule handleWrite_result [OF ok less.prems(2) n(2,1)])
  show ?case
  proof (cases "n < length ?s")
    case False
    then show ?thesis
      using w1 ne less.prems(3)
      by (intro exI [of _ "Suc 0"] exI [of _ w1] exI [of _ "conn\<lparr>tc_outputBuffer := outb\<rparr>"] exI [of _ ch1])
        (simp add: Suc_le_eq)
  next
    case True
    let ?conn1 = "conn\<lparr>tc_outputBuffer := outb\<rparr>"
    have "length (contents (tc_outputBuffer ?conn1)) < length ?s" using w1(3) n(1) ne by simp
    from less.hyps [OF this w1(2)] w1(4) True less.prems(3)
    obtain k w' conn' ch' where k: "k \<le> length (contents outb)" "rounds (handleWrite os c) k w1 = Inr w'"
        "conn_ok w' c conn' ch'" "contents (tc_outputBuffer conn') = []" "\<not> isWriting ch'"
        "sent_bytes f (io_trace w') = sent_bytes f (io_trace w1) @ contents outb" "tc_socket conn' = f"
      by auto
    have "Suc k \<le> length ?s" using k(1) w1(3) n(1) True by simp
    moreover have "rounds (handleWrite os c) (Suc k) w = Inr w'" using w1(1) k(2) by simp
    moreover have "sent_bytes f (io_trace w') = sent_bytes f (io_trace w) @ ?s"
      using k(6) w1(3,5) less.prems(3) by simp
    ultimately show ?thesis using k(3-5,7) by blast
  qed
qed

text \<open>
  C20. What waits in the output buffer gets out: as long as the kernel takes at least one byte of each
  write, at most as many write events as bytes are pending empty the buffer, everything pending has
  then been sent in order, and the channel no longer asks for write events.
\<close>

theorem write_events_drain:
  assumes "\<And>h bytes. bytes \<noteq> [] \<Longrightarrow> \<exists>n>0. os_write os h (tc_socket conn) bytes = Inr n"
    and "conn_ok w c conn ch" and "isWriting ch"
  shows "\<exists>k w' conn' ch'. k \<le> length (contents (tc_outputBuffer conn)) \<and> rounds (handleWrite os c) k w = Inr w' \<and>
      conn_ok w' c conn' ch' \<and> contents (tc_outputBuffer conn') = [] \<and> \<not> isWriting ch' \<and>
      sent_bytes (tc_socket conn) (io_trace w') =
        sent_bytes (tc_socket conn) (io_trace w) @ contents (tc_outputBuffer conn)"
  using write_events_drain_result [of os "tc_socket conn" w c conn ch, OF assms(1) assms(2,3) refl] by blast

text \<open>A connection with three bytes pending, and the caller's string still there.\<close>

lemma lab_writing:
  obtains w w' :: conn_world and conn conn' ch ch' where "conn_ok w 3 conn ch" and "contents (tc_outputBuffer conn) = []"
    and "tw_strs w 90 = Some ''hello world''" and "tc_socket conn = 9"
    and "unat (buf_writerIndex (tc_outputBuffer conn)) + length ''hello world'' \<le> vec_max"
    and "sendInLoop (ready_os 4) 3 90 (of_nat (length ''hello world'')) w = Inr w'"
    and "conn_ok w' 3 conn' ch'" and "isWriting ch'"
    and "contents (tc_outputBuffer conn') = ''rld''" and "tc_socket conn' = 9"
proof -
  obtain w :: conn_world and conn ch where w: "conn_ok w 3 conn ch" "tc_socket conn = 9"
      "contents (tc_outputBuffer conn) = []" "length (buf_data (tc_outputBuffer conn)) = 1032"
      "tw_strs w = [90 \<mapsto> ''hello world'']"
    by (rule lab_connected [of "[90 \<mapsto> ''hello world'']" 7])
  have s: "tw_strs w 90 = Some ''hello world''" using w(5) by simp
  have room: "unat (buf_writerIndex (tc_outputBuffer conn)) + length ''hello world'' \<le> vec_max"
    using lab_writer_index [OF conn_okD(7) [OF w(1)] w(4), of "length ''hello world''"] by simp
  have took: "os_write (ready_os 4) (io_trace w) (tc_socket conn) ''hello world'' = Inr 8"
    by (simp add: ready_os_def lab_os_def)
  obtain w' :: conn_world and outb ch' where w':
      "sendInLoop (ready_os 4) 3 90 (of_nat (length ''hello world'')) w = Inr w'"
      "conn_ok w' 3 (conn\<lparr>tc_outputBuffer := outb\<rparr>) ch'"
      "contents outb = drop 8 ''hello world''" "isWriting ch' \<longleftrightarrow> 8 < length ''hello world''"
    by (rule sendInLoop_result [OF w(1,3) s _ room took]) simp_all
  show ?thesis
    by (rule that [OF w(1,3) s w(2) room w'(1,2)]) (use w' w(2) in simp_all)
qed

theorem write_events_drain_witness:
  "\<exists>(w :: conn_world) (conn :: connection) k w' conn' ch'. contents (tc_outputBuffer conn) = ''rld'' \<and> k \<le> 3 \<and>
     rounds (handleWrite (ready_os 4) 3) k w = Inr w' \<and> conn_ok w' 3 conn' ch' \<and>
     contents (tc_outputBuffer conn') = [] \<and> \<not> isWriting ch' \<and>
     sent_bytes 9 (io_trace w') = sent_bytes 9 (io_trace w) @ ''rld''"
proof -
  obtain w :: conn_world and conn ch where w: "conn_ok w 3 conn ch" "isWriting ch"
      "contents (tc_outputBuffer conn) = ''rld''" "tc_socket conn = 9"
    by (rule lab_writing)
  have "\<exists>n>0. os_write (ready_os 4) h (tc_socket conn) bs = Inr n" for h bs
    by (simp add: ready_os_def lab_os_def)
  note drain = write_events_drain [OF this w(1,2)]
  have len: "length ''rld'' = 3" by simp
  from drain [unfolded w(3,4) len] w(3) show ?thesis by blast
qed

section \<open>The stream of a connection\<close>

text \<open>
  What happens to the outgoing stream of the connection \<open>c\<close>, as steps: the caller makes or drops
  strings, \<open>sendInLoop\<close> is called with a string while nothing is pending and the kernel takes some
  of it, or a write event is handled. The list is what the caller sent in the step.
\<close>

inductive stream_step ::
    "os \<Rightarrow> conn_ptr \<Rightarrow> 'a conn_world_scheme \<Rightarrow> char list \<Rightarrow> 'a conn_world_scheme \<Rightarrow> bool"
  for os c where
  strings: "stream_step os c w [] (w\<lparr>tw_strs := ss\<rparr>)"
| send: "stream_step os c w str w'"
  if "tw_conns w c = Some conn" and "contents (tc_outputBuffer conn) = []"
    and "tw_strs w data = Some str" and "str \<noteq> []"
    and "unat (buf_writerIndex (tc_outputBuffer conn)) + length str \<le> vec_max"
    and "os_write os (io_trace w) (tc_socket conn) str = Inr n" and "0 < n"
    and "sendInLoop os c data (of_nat (length str)) w = Inr w'"
| writable: "stream_step os c w [] w'"
  if "tw_conns w c = Some conn" and "cw_channels w (tc_channel conn) = Some ch" and "isWriting ch"
    and "os_write os (io_trace w) (tc_socket conn) (contents (tc_outputBuffer conn)) = Inr n" and "0 < n"
    and "handleWrite os c w = Inr w'"

inductive stream_run ::
    "os \<Rightarrow> conn_ptr \<Rightarrow> 'a conn_world_scheme \<Rightarrow> char list list \<Rightarrow> 'a conn_world_scheme \<Rightarrow> bool"
  for os c where
  nil: "stream_run os c w [] w"
| snoc: "stream_run os c u ss v \<Longrightarrow> stream_step os c v s w \<Longrightarrow> stream_run os c u (ss @ [s]) w"

inductive_cases stream_step_cases [consumes 1, case_names strings send writable]: "stream_step os c w s w'"

lemma stream_step_appends:
  assumes step: "stream_step os c w s w'" and ok: "conn_ok w c conn ch"
  obtains conn' ch' where "conn_ok w' c conn' ch'" and "tc_socket conn' = tc_socket conn"
    and "out_stream w' conn' = out_stream w conn @ s"
  using step
proof (cases rule: stream_step_cases)
  case (strings ss)
  have "conn_ok w' c conn ch" unfolding strings by (rule conn_ok_frame [OF ok]) simp_all
  then show ?thesis using that strings by (simp add: out_stream_def)
next
  case (send conn2 data n)
  then have conn2: "conn2 = conn" using conn_okD(2) [OF ok] by simp
  obtain v outb ch' where "sendInLoop os c data (of_nat (length s)) w = Inr v"
      "conn_ok v c (conn\<lparr>tc_outputBuffer := outb\<rparr>) ch'" "contents outb = drop n s"
      "sent_bytes (tc_socket conn) (io_trace v) = sent_bytes (tc_socket conn) (io_trace w) @ take n s"
    by (rule sendInLoop_result [OF ok _ _ _ _ _ _, where data = data and str = s and n = n and os = os])
      (use send conn2 in simp_all)
  then show ?thesis
    using that [of "conn\<lparr>tc_outputBuffer := outb\<rparr>" ch'] send conn2 by (simp add: out_stream_def)
next
  case (writable conn2 ch2 n)
  then have same: "conn2 = conn" "ch2 = ch" using conn_okD(2,3) [OF ok] by simp_all
  obtain v outb ch' where "handleWrite os c w = Inr v"
      "conn_ok v c (conn\<lparr>tc_outputBuffer := outb\<rparr>) ch'"
      "contents outb = drop n (contents (tc_outputBuffer conn))"
      "sent_bytes (tc_socket conn) (io_trace v) =
        sent_bytes (tc_socket conn) (io_trace w) @ take n (contents (tc_outputBuffer conn))"
    by (rule handleWrite_result [OF ok, of os n]) (use writable same in simp_all)
  then show ?thesis
    using that [of "conn\<lparr>tc_outputBuffer := outb\<rparr>" ch'] writable by (simp add: out_stream_def)
qed



end
