(* ===== verification/Echo_Properties.thy ===== *)
theory Echo_Properties
  imports Echo_Server Connection_Lifecycle
begin

text \<open>
  What the echo server does for its peer: the bytes that come in on a connection go out on it.
\<close>

section \<open>Echoing\<close>

lemma onMessage_result:
  fixes w :: "'a conn_world_scheme"
  assumes ok: "conn_ok w c conn ch" and state: "tc_state conn = kConnected"
    and lp: "lw_loops w (tc_loop conn) = Some lp" and here: "el_threadId lp = io_tid w"
    and idle: "contents (tc_outputBuffer conn) = []" and ne: "contents (tc_inputBuffer conn) \<noteq> []"
    and room: "unat (buf_writerIndex (tc_outputBuffer conn)) + length (contents (tc_inputBuffer conn)) \<le> vec_max"
    and took: "os_write os (io_trace w) (tc_socket conn) (contents (tc_inputBuffer conn)) = Inr n" and n: "0 < n"
  obtains w' outb ch' where "onMessage os c t w = Inr w'"
    and "conn_ok w' c (conn\<lparr>tc_inputBuffer := retrieveAll (tc_inputBuffer conn), tc_outputBuffer := outb\<rparr>) ch'"
    and "contents outb = drop n (contents (tc_inputBuffer conn))"
    and "sent_bytes (tc_socket conn) (io_trace w') =
      sent_bytes (tc_socket conn) (io_trace w) @ take n (contents (tc_inputBuffer conn))"
    and "in_stream w' conn = in_stream w conn" and "tw_strs w' = (tw_strs w)(lw_next w := None)"
    and "isWriting ch' \<longleftrightarrow> n < length (contents (tc_inputBuffer conn))"
proof -
  note okD = conn_okD [OF ok]
  let ?s = "contents (tc_inputBuffer conn)" and ?p = "lw_next w"
  let ?conn = "conn\<lparr>tc_inputBuffer := retrieveAll (tc_inputBuffer conn)\<rparr>"
  let ?w = "put_conn c ?conn (w\<lparr>lw_next := ?p + 1, tw_strs := (tw_strs w)(?p \<mapsto> ?s)\<rparr>)"
  have "loops_inv ?w" by (rule loops_inv_io [OF okD(1), where evs = "[]"]) simp_all
  then have ok1: "conn_ok ?w c ?conn ch" using ok by (simp add: conn_ok_def)
  have idle1: "contents (tc_outputBuffer ?conn) = []" using idle by simp
  have str1: "tw_strs ?w ?p = Some ?s" by simp
  have room1: "unat (buf_writerIndex (tc_outputBuffer ?conn)) + length ?s \<le> vec_max" using room by simp
  have took1: "os_write os (io_trace ?w) (tc_socket ?conn) ?s = Inr n" using took by simp
  obtain w' outb ch' where w': "sendInLoop os c ?p (of_nat (length ?s)) ?w = Inr w'"
      "tw_conns w' = (tw_conns ?w)(c \<mapsto> ?conn\<lparr>tc_outputBuffer := outb\<rparr>)"
      "conn_ok w' c (?conn\<lparr>tc_outputBuffer := outb\<rparr>) ch'"
      "contents outb = drop n ?s" "isWriting ch' \<longleftrightarrow> n < length ?s"
      "sent_bytes (tc_socket ?conn) (io_trace w') = sent_bytes (tc_socket ?conn) (io_trace ?w) @ take n ?s"
      "in_stream w' ?conn = in_stream ?w ?conn" "tw_strs w' = tw_strs ?w"
    by (rule sendInLoop_result [OF ok1 idle1 str1 ne room1 took1 n]) blast
  have send: "send os ?p c ?w = Inr w'"
    using w'(1) state lp here by (simp add: send_def isInLoopThread_def)
  let ?v = "w'\<lparr>tw_strs := (tw_strs w')(?p := None)\<rparr>"
  have run: "onMessage os c t w = Inr ?v"
    using okD(2) send by (simp add: onMessage_def retrieveAllAsString_correct [OF okD(6)] Let_def)
  have "conn_ok ?v c (?conn\<lparr>tc_outputBuffer := outb\<rparr>) ch'" by (rule conn_ok_frame [OF w'(3)]) simp_all
  then show ?thesis by (intro that [OF run _ w'(4)]) (use w' in \<open>simp_all add: in_stream_def\<close>)
qed



end
