(* ===== verification/Loop_Properties.thy ===== *)
theory Loop_Properties
  imports Loop_Lifecycle
begin

text \<open>
  When a loop ends: \<open>loop()\<close> returns exactly when \<open>quit_\<close> is found set, and what \<open>quit()\<close> does.
\<close>

section \<open>Ending the loop\<close>

text \<open>
  C24. \<open>loop()\<close> returns when and only when \<open>quit_\<close> is found set: after the first round that leaves it
  set, with no round more, and with \<open>looping_\<close> cleared; a round that throws is the only other end.
\<close>

theorem loop_returns_on_quit:
  assumes lp: "lw_loops w l = Some lp"
  shows "loop round l w = Some (Inr w') \<longleftrightarrow>
     (\<exists>k v lp'. rounds round k (put_loop l (lp\<lparr>el_looping := True, el_quit := False\<rparr>) w) = Inr v \<and>
        lw_loops v l = Some lp' \<and> el_quit lp' \<and> w' = put_loop l (lp'\<lparr>el_looping := False\<rparr>) v \<and>
        (\<forall>j u. j < k \<longrightarrow> rounds round j (put_loop l (lp\<lparr>el_looping := True, el_quit := False\<rparr>) w) = Inr u \<longrightarrow>
           (\<exists>lpj. lw_loops u l = Some lpj \<and> \<not> el_quit lpj)))"
proof -
  let ?w0 = "put_loop l (lp\<lparr>el_looping := True, el_quit := False\<rparr>) w"
  have quitting: "loop_quitting l v = Inr b \<longleftrightarrow> (\<exists>lp'. lw_loops v l = Some lp' \<and> el_quit lp' = b)" for v b
    by (auto simp: loop_quitting_def bind_simps)
  show ?thesis
  proof
    assume "loop round l w = Some (Inr w')"
    then obtain v lp' where v: "loop_while (loop_quitting l) round ?w0 = Some (Inr v)"
        "lw_loops v l = Some lp'" "w' = put_loop l (lp'\<lparr>el_looping := False\<rparr>) v"
      using lp by (auto simp: loop_def bind_simps)
    from loop_while_exit [OF v(1)] obtain k where k: "loop_quitting l v = Inr True" "rounds round k ?w0 = Inr v"
        "\<And>j u. j < k \<Longrightarrow> rounds round j ?w0 = Inr u \<Longrightarrow> loop_quitting l u = Inr False"
      by blast
    then show "\<exists>k v lp'. rounds round k ?w0 = Inr v \<and>
        lw_loops v l = Some lp' \<and> el_quit lp' \<and> w' = put_loop l (lp'\<lparr>el_looping := False\<rparr>) v \<and>
        (\<forall>j u. j < k \<longrightarrow> rounds round j ?w0 = Inr u \<longrightarrow> (\<exists>lpj. lw_loops u l = Some lpj \<and> \<not> el_quit lpj))"
      using v(2,3) unfolding quitting by (intro exI [of _ k] exI [of _ v] exI [of _ lp']) auto
  next
    assume "\<exists>k v lp'. rounds round k ?w0 = Inr v \<and>
        lw_loops v l = Some lp' \<and> el_quit lp' \<and> w' = put_loop l (lp'\<lparr>el_looping := False\<rparr>) v \<and>
        (\<forall>j u. j < k \<longrightarrow> rounds round j ?w0 = Inr u \<longrightarrow> (\<exists>lpj. lw_loops u l = Some lpj \<and> \<not> el_quit lpj))"
    then obtain k v lp' where v: "rounds round k ?w0 = Inr v" "lw_loops v l = Some lp'" "el_quit lp'"
        "w' = put_loop l (lp'\<lparr>el_looping := False\<rparr>) v"
        "\<And>j u. j < k \<Longrightarrow> rounds round j ?w0 = Inr u \<Longrightarrow> loop_quitting l u = Inr False"
      unfolding quitting by auto
    have "loop_while (loop_quitting l) round ?w0 = Some (Inr v)"
      by (rule loop_while_returns [OF v(1) _ v(5)]) (use v(2,3) quitting in auto)
    then show "loop round l w = Some (Inr w')" using lp v(2,4) by (simp add: loop_def)
  qed
qed

theorem loop_returns_on_quit_witness:
  "\<exists>(w :: unit loop_world_scheme) w' lp. lw_loops w 1 = Some lp \<and> loop (loop_quit (ready_os 4) 1) 1 w = Some (Inr w') \<and>
     map_option el_looping (lw_loops w' 1) = Some False"
proof -
  obtain w :: "unit loop_world_scheme" and lp where w: "lw_loops w = [1 \<mapsto> lp]" "el_threadId lp = 7" "io_tid w = 7"
    by (rule lab_loop_new [of 4 "()"])
  let ?w0 = "put_loop 1 (lp\<lparr>el_looping := True, el_quit := False\<rparr>) w"
  let ?lp' = "lp\<lparr>el_looping := True, el_quit := True\<rparr>"
  let ?v = "put_loop 1 ?lp' ?w0"
  have lp: "lw_loops w 1 = Some lp" by (simp add: w)
  have q: "rounds (loop_quit (ready_os 4) 1) 1 ?w0 = Inr ?v"
    using w by (simp add: loop_quit_def isInLoopThread_def)
  have "loop (loop_quit (ready_os 4) 1) 1 w = Some (Inr (put_loop 1 (?lp'\<lparr>el_looping := False\<rparr>) ?v))"
    unfolding loop_returns_on_quit [OF lp]
    by (rule exI [of _ 1], rule exI [of _ ?v], rule exI [of _ ?lp'])
      (use q in \<open>auto simp: less_Suc_eq\<close>)
  then show ?thesis using lp by force
qed



end
