(* ===== verification/Wakeup_Protocol.thy ===== *)
theory Wakeup_Protocol
  imports Loop_Properties Connection_Behaviour
begin

text \<open>
  The queue of a loop under concurrency: the one place where threads meet. The sequential model runs
  \<open>queueInLLoop\<close> and \<open>doPendingFunctors\<close> as one step each; here they are the steps between which the
  threads may interleave (the push under the lock, the write of the eventfd, the flag, the swap
  under the lock, the tasks, the end of the poll), as step relations on the state they share.
\<close>

section \<open>State and steps\<close>

text \<open>Where the thread of the loop is in its round.\<close>

datatype loop_pc = Polling | Handling | Swapping | Running

record queue_state =
  qs_pc :: loop_pc
  qs_pending :: "task list"      \<comment> \<open>\<open>pendingFunctors_\<close>\<close>
  qs_batch :: "task list"        \<comment> \<open>what is left of the local \<open>functors\<close>\<close>
  qs_calling :: bool             \<comment> \<open>\<open>callingPendingFunctors_\<close>\<close>
  qs_counter :: nat              \<comment> \<open>the value of the eventfd\<close>
  qs_owed :: nat                 \<comment> \<open>threads between the push and their \<open>wakeup()\<close>\<close>
  qs_done :: "task list"         \<comment> \<open>history: the tasks that have run\<close>
  qs_pushed :: "task list"       \<comment> \<open>history: the tasks that were queued\<close>

text \<open>
  \<open>queueInLLoop\<close>. In another thread the push under the lock and the write are two steps, and anything
  may happen between them; in the loop's own thread the flag decides whether there is a write.
\<close>

inductive queue_push :: "queue_state \<Rightarrow> queue_state \<Rightarrow> bool" where
  other_push: "queue_push s (s\<lparr>qs_pending := qs_pending s @ [t], qs_pushed := qs_pushed s @ [t], qs_owed := qs_owed s + 1\<rparr>)"
| own_push: "queue_push s (s\<lparr>qs_pending := qs_pending s @ [t], qs_pushed := qs_pushed s @ [t],
      qs_counter := (if qs_calling s then qs_counter s + 1 else qs_counter s)\<rparr>)"
  if "qs_pc s = Handling \<or> qs_pc s = Running"

text \<open>The \<open>wakeup()\<close> that a thread still owes.\<close>

inductive queue_wake :: "queue_state \<Rightarrow> queue_state \<Rightarrow> bool" where
  other_wake: "queue_wake s (s\<lparr>qs_counter := qs_counter s + 1, qs_owed := qs_owed s - 1\<rparr>)" if "0 < qs_owed s"

text \<open>The poll returns when something is readable; reading the eventfd resets it.\<close>

inductive poll_step :: "queue_state \<Rightarrow> queue_state \<Rightarrow> bool" where
  woken_up: "poll_step s (s\<lparr>qs_pc := Handling\<rparr>)" if "qs_pc s = Polling" and "0 < qs_counter s"
| read_eventfd: "poll_step s (s\<lparr>qs_counter := 0\<rparr>)" if "qs_pc s = Handling"

text \<open>Another descriptor is ready, or the ten seconds are over.\<close>

inductive other_event :: "queue_state \<Rightarrow> queue_state \<Rightarrow> bool" where
  "other_event s (s\<lparr>qs_pc := Handling\<rparr>)" if "qs_pc s = Polling"

text \<open>\<open>doPendingFunctors\<close>: the flag, the swap under the lock, the tasks one by one, the flag.\<close>

inductive drain_step :: "queue_state \<Rightarrow> queue_state \<Rightarrow> bool" where
  set_flag: "drain_step s (s\<lparr>qs_pc := Swapping, qs_calling := True\<rparr>)" if "qs_pc s = Handling"
| swap: "drain_step s (s\<lparr>qs_pc := Running, qs_batch := qs_pending s, qs_pending := []\<rparr>)" if "qs_pc s = Swapping"
| run: "drain_step s (s\<lparr>qs_batch := ts, qs_done := qs_done s @ [t]\<rparr>)" if "qs_pc s = Running" and "qs_batch s = t # ts"
| clear_flag: "drain_step s (s\<lparr>qs_pc := Polling, qs_calling := False\<rparr>)" if "qs_pc s = Running" and "qs_batch s = []"

definition quiet_progress :: "queue_state \<Rightarrow> queue_state \<Rightarrow> bool" where
  "quiet_progress s s' \<longleftrightarrow> queue_wake s s' \<or> poll_step s s' \<or> drain_step s s'"

definition queue_start :: queue_state where
  "queue_start = \<lparr>qs_pc = Polling, qs_pending = [], qs_batch = [], qs_calling = False, qs_counter = 0,
     qs_owed = 0, qs_done = [], qs_pushed = []\<rparr>"

inductive queue_reachable :: "queue_state \<Rightarrow> bool" where
  start: "queue_reachable queue_start"
| push: "queue_reachable s \<Longrightarrow> queue_push s s' \<Longrightarrow> queue_reachable s'"
| other: "queue_reachable s \<Longrightarrow> other_event s s' \<Longrightarrow> queue_reachable s'"
| progress: "queue_reachable s \<Longrightarrow> quiet_progress s s' \<Longrightarrow> queue_reachable s'"

inductive_cases queue_push_cases: "queue_push s s'"
inductive_cases queue_wake_cases: "queue_wake s s'"
inductive_cases poll_step_cases: "poll_step s s'"
inductive_cases other_event_cases: "other_event s s'"
inductive_cases drain_step_cases: "drain_step s s'"

section \<open>The invariant\<close>

definition queue_inv :: "queue_state \<Rightarrow> bool" where
  "queue_inv s \<longleftrightarrow>
     qs_done s @ qs_batch s @ qs_pending s = qs_pushed s \<and>
     (qs_pc s \<noteq> Running \<longrightarrow> qs_batch s = []) \<and>
     (qs_calling s \<longleftrightarrow> qs_pc s = Swapping \<or> qs_pc s = Running) \<and>
     ((qs_pc s = Polling \<or> qs_pc s = Running) \<and> qs_pending s \<noteq> [] \<longrightarrow> 0 < qs_counter s \<or> 0 < qs_owed s)"

lemma queue_inv_push: "queue_inv s \<Longrightarrow> queue_push s s' \<Longrightarrow> queue_inv s'"
  by (erule queue_push_cases) (auto simp: queue_inv_def)

lemma queue_inv_other: "queue_inv s \<Longrightarrow> other_event s s' \<Longrightarrow> queue_inv s'"
  by (erule other_event_cases) (auto simp: queue_inv_def)

lemma queue_inv_progress:
  assumes "queue_inv s" and "quiet_progress s s'"
  shows "queue_inv s'"
proof -
  have "queue_inv s'" if "queue_wake s s'" using that assms(1) by (elim queue_wake_cases) (auto simp: queue_inv_def)
  moreover have "queue_inv s'" if "poll_step s s'"
    using that assms(1) by (elim poll_step_cases) (auto simp: queue_inv_def)
  moreover have "queue_inv s'" if "drain_step s s'"
    using that assms(1) by (elim drain_step_cases) (auto simp: queue_inv_def)
  ultimately show ?thesis using assms(2) by (auto simp: quiet_progress_def)
qed

lemma queue_inv_reachable: "queue_reachable s \<Longrightarrow> queue_inv s"
proof (induction rule: queue_reachable.induct)
  case start
  then show ?case by (simp add: queue_inv_def queue_start_def)
next
  case (push s s')
  then show ?case by (blast intro: queue_inv_push)
next
  case (other s s')
  then show ?case by (blast intro: queue_inv_other)
next
  case (progress s s')
  then show ?case by (blast intro: queue_inv_progress)
qed



section \<open>Progress\<close>

lemma progress_trans:
  "quiet_progress\<^sup>*\<^sup>* s u \<Longrightarrow> quiet_progress u v \<Longrightarrow> quiet_progress\<^sup>*\<^sup>* s v"
  by (rule rtranclp.rtrancl_into_rtrancl)

lemma batch_runs:
  assumes "qs_pc s = Running"
  shows "\<exists>s'. quiet_progress\<^sup>*\<^sup>* s s' \<and> qs_pc s' = Polling \<and> qs_batch s' = [] \<and> qs_pending s' = qs_pending s \<and>
      qs_done s' = qs_done s @ qs_batch s \<and> qs_pushed s' = qs_pushed s \<and>
      qs_counter s' = qs_counter s \<and> qs_owed s' = qs_owed s"
  using assms
proof (induction "qs_batch s" arbitrary: s)
  case Nil
  then have "quiet_progress s (s\<lparr>qs_pc := Polling, qs_calling := False\<rparr>)"
    using drain_step.clear_flag [of s] by (simp add: quiet_progress_def)
  with Nil show ?case by (intro exI [of _ "s\<lparr>qs_pc := Polling, qs_calling := False\<rparr>"]) auto
next
  case (Cons t ts)
  let ?s = "s\<lparr>qs_batch := ts, qs_done := qs_done s @ [t]\<rparr>"
  have step: "quiet_progress s ?s" using drain_step.run [of s t ts] Cons by (simp add: quiet_progress_def)
  from Cons.hyps(1) [of ?s] Cons.prems obtain s' where "quiet_progress\<^sup>*\<^sup>* ?s s'" "qs_pc s' = Polling"
      "qs_batch s' = []" "qs_pending s' = qs_pending s" "qs_done s' = (qs_done s @ [t]) @ ts"
      "qs_pushed s' = qs_pushed s" "qs_counter s' = qs_counter s" "qs_owed s' = qs_owed s"
    by auto
  with step Cons.hyps(2) show ?case by (intro exI [of _ s']) (auto intro: converse_rtranclp_into_rtranclp)
qed

text \<open>From \<open>Handling\<close> on, one pass of \<open>doPendingFunctors\<close> runs everything.\<close>

lemma handling_runs:
  assumes "qs_pc s = Handling" and "qs_batch s = []"
  shows "\<exists>s'. quiet_progress\<^sup>*\<^sup>* s s' \<and> qs_done s' = qs_done s @ qs_pending s \<and> qs_pushed s' = qs_pushed s"
proof -
  let ?u = "s\<lparr>qs_pc := Swapping, qs_calling := True\<rparr>"
  let ?v = "?u\<lparr>qs_pc := Running, qs_batch := qs_pending s, qs_pending := []\<rparr>"
  have "quiet_progress s ?u" using drain_step.set_flag [of s] assms by (simp add: quiet_progress_def)
  moreover have "quiet_progress ?u ?v" using drain_step.swap [of ?u] by (simp add: quiet_progress_def)
  moreover obtain s' where "quiet_progress\<^sup>*\<^sup>* ?v s'" "qs_done s' = qs_done s @ qs_pending s" "qs_pushed s' = qs_pushed s"
    using batch_runs [of ?v] by auto
  ultimately show ?thesis by (meson converse_rtranclp_into_rtranclp)
qed

lemma polling_runs:
  assumes inv: "queue_inv s" and "qs_pc s = Polling"
  shows "\<exists>s'. quiet_progress\<^sup>*\<^sup>* s s' \<and> qs_done s' = qs_pushed s \<and> qs_pushed s' = qs_pushed s"
proof (cases "qs_pending s = []")
  case True
  with assms show ?thesis by (intro exI [of _ s]) (auto simp: queue_inv_def)
next
  case False
  obtain u where u: "quiet_progress\<^sup>*\<^sup>* s u" "0 < qs_counter u" "qs_pc u = Polling" "qs_pending u = qs_pending s"
      "qs_done u = qs_done s" "qs_pushed u = qs_pushed s" "qs_batch u = qs_batch s"
  proof (cases "0 < qs_counter s")
    case True
    then show ?thesis using that [of s] assms(2) by simp
  next
    case no: False
    with False assms have "0 < qs_owed s" by (auto simp: queue_inv_def)
    let ?u = "s\<lparr>qs_counter := qs_counter s + 1, qs_owed := qs_owed s - 1\<rparr>"
    have "quiet_progress s ?u" using queue_wake.other_wake [OF \<open>0 < qs_owed s\<close>] by (simp add: quiet_progress_def)
    then show ?thesis using assms(2) by (intro that [of ?u]) auto
  qed
  let ?v = "u\<lparr>qs_pc := Handling\<rparr>"
  have "quiet_progress u ?v" using poll_step.woken_up [of u] u by (simp add: quiet_progress_def)
  moreover obtain s' where "quiet_progress\<^sup>*\<^sup>* ?v s'" "qs_done s' = qs_done s @ qs_pending s" "qs_pushed s' = qs_pushed s"
    using handling_runs [of ?v] u assms by (auto simp: queue_inv_def)
  ultimately show ?thesis
    using u(1) assms by (intro exI [of _ s']) (auto simp: queue_inv_def intro: rtranclp_trans converse_rtranclp_into_rtranclp)
qed



section \<open>The sequential model implements the protocol\<close>

definition queue_of :: "event_loop \<Rightarrow> queue_state \<Rightarrow> bool" where
  "queue_of lp s \<longleftrightarrow> el_pendingFunctors lp = qs_pending s \<and> el_callingPendingFunctors lp = qs_calling s"



end
